(* ===== verification/Prelude.thy ===== *)
theory Prelude
  imports Main "HOL-Library.Word"
begin

text \<open>
  Shared vocabulary of the development.  The installer script is a straight-line
  Python program whose every statement may raise an exception after changing the
  file system.  Its effects are therefore modelled in an exception-and-state
  monad: a computation takes the state and returns either an exception
  (\<open>Inl\<close>) or a value (\<open>Inr\<close>), together with the state it leaves behind.
  The state is kept on an exception, because Python does not roll back the file
  operations that happened before the raise.

  The theory also holds the generic lemmas on maps that the file-system
  theories share, and the named collections that the component proofs use.
\<close>

named_theorems exn_simps "evaluation rules of the exception-and-state monad"
named_theorems path_simps "rewrite rules for path strings"

subsection \<open>The exception-and-state monad\<close>

type_synonym ('e, 's, 'a) exn = "'s \<Rightarrow> ('e + 'a) \<times> 's"

definition returnE :: "'a \<Rightarrow> ('e, 's, 'a) exn" where
  "returnE a = (\<lambda>s. (Inr a, s))"

definition raiseE :: "'e \<Rightarrow> ('e, 's, 'a) exn" where
  "raiseE e = (\<lambda>s. (Inl e, s))"

definition bindE :: "('e, 's, 'a) exn \<Rightarrow> ('a \<Rightarrow> ('e, 's, 'b) exn) \<Rightarrow> ('e, 's, 'b) exn" where
  "bindE m f = (\<lambda>s. case m s of (Inl e, s') \<Rightarrow> (Inl e, s') | (Inr a, s') \<Rightarrow> f a s')"

lemma returnE_apply [exn_simps, simp]: "returnE a s = (Inr a, s)"
  by (simp add: returnE_def)

lemma raiseE_apply [exn_simps, simp]: "raiseE e s = (Inl e, s)"
  by (simp add: raiseE_def)

lemma bindE_apply [exn_simps]:
  "bindE m f s = (case m s of (Inl e, s') \<Rightarrow> (Inl e, s') | (Inr a, s') \<Rightarrow> f a s')"
  by (simp add: bindE_def)

lemma bindE_Inr [exn_simps, simp]: "m s = (Inr a, s') \<Longrightarrow> bindE m f s = f a s'"
  by (simp add: bindE_def)

lemma bindE_Inl [exn_simps, simp]: "m s = (Inl e, s') \<Longrightarrow> bindE m f s = (Inl e, s')"
  by (simp add: bindE_def)

lemma bindE_returnE_left [simp]: "bindE (returnE a) f = f a"
  by (simp add: bindE_def)

lemma bindE_returnE_right [simp]: "bindE m returnE = m"
  by (rule ext) (simp add: bindE_def split: prod.split sum.split)

lemma bindE_raiseE [simp]: "bindE (raiseE e) f = raiseE e"
  by (rule ext) (simp add: bindE_def)

lemma bindE_assoc: "bindE (bindE m f) g = bindE m (\<lambda>a. bindE (f a) g)"
  by (rule ext) (simp add: bindE_def split: prod.split sum.split)

text \<open>A sequence succeeds exactly when both of its parts do, in order.\<close>

lemma bindE_eq_Inr:
  "bindE m f s = (Inr b, s'') \<longleftrightarrow> (\<exists>a s'. m s = (Inr a, s') \<and> f a s' = (Inr b, s''))"
  by (auto simp: bindE_def split: prod.splits sum.splits)

lemma bindE_eq_Inl:
  "bindE m f s = (Inl e, s'') \<longleftrightarrow>
     m s = (Inl e, s'') \<or> (\<exists>a s'. m s = (Inr a, s') \<and> f a s' = (Inl e, s''))"
  by (auto simp: bindE_def split: prod.splits sum.splits)

text \<open>
  A property of the state that every step keeps is kept by a sequence, whatever
  the outcome of the steps.
\<close>

lemma bindE_keeps:
  assumes "\<And>s. P s \<Longrightarrow> P (snd (m s))"
    and "\<And>a s. P s \<Longrightarrow> P (snd (f a s))"
    and "P s"
  shows "P (snd (bindE m f s))"
proof (cases "m s")
  case (Pair r s')
  from assms(1,3) have "P s'" using Pair by (metis snd_conv)
  with Pair assms(2) show ?thesis by (cases r) (auto simp: bindE_def)
qed

subsection \<open>Maps\<close>

lemma ran_upd_subset: "ran (m(a \<mapsto> b)) \<subseteq> insert b (ran m)"
  by (auto simp: ran_def)

end
