(* ===== verification/Paths.thy ===== *)
theory Paths
  imports Prelude
begin

text \<open>
  Path strings.  The installer never manipulates paths itself: it hands strings to
  \<open>os.path.join\<close> and to \<open>shutil.copy\<close>, which calls \<open>os.path.basename\<close>, and
  \<open>os.makedirs\<close> walks its argument with \<open>os.path.split\<close>.  These are the
  functions of CPython's \<open>posixpath\<close> module, translated here character by
  character (a Python \<open>str\<close> is a \<open>string\<close>; the separator is \<open>/\<close>).

  The kernel reads a path differently: it splits the string at every separator and
  ignores the empty components that repeated or trailing separators produce.  That
  reading, \<open>path_comps\<close>, is what the file-system model of theory \<open>Posix\<close>
  resolves.  The lemmas relate the two readings: joining appends components,
  splitting removes the last one, and the head that \<open>os.path.split\<close> returns is
  strictly shorter, which is the termination argument of \<open>os.makedirs\<close>.
\<close>

subsection \<open>\<open>posixpath\<close>\<close>

definition is_sep :: "char \<Rightarrow> bool" where
  "is_sep c \<longleftrightarrow> c = CHR ''/''"

definition startswith_sep :: "string \<Rightarrow> bool" where
  "startswith_sep p \<longleftrightarrow> take 1 p = ''/''"

definition endswith_sep :: "string \<Rightarrow> bool" where
  "endswith_sep p \<longleftrightarrow> p \<noteq> [] \<and> last p = CHR ''/''"

text \<open>\<open>posixpath.join(a, b)\<close> with two arguments.\<close>

definition pjoin :: "string \<Rightarrow> string \<Rightarrow> string" where
  "pjoin a b =
     (if startswith_sep b then b
      else if a = [] \<or> endswith_sep a then a @ b
      else a @ ''/'' @ b)"

text \<open>
  \<open>p[i:]\<close> with \<open>i = p.rfind('/') + 1\<close> is the longest suffix of \<open>p\<close> without a
  separator; \<open>p[:i]\<close> is the rest.
\<close>

definition after_last_sep :: "string \<Rightarrow> string" where
  "after_last_sep p = rev (takeWhile (\<lambda>c. \<not> is_sep c) (rev p))"

definition rstrip_sep :: "string \<Rightarrow> string" where
  "rstrip_sep s = rev (dropWhile is_sep (rev s))"

definition psplit :: "string \<Rightarrow> string \<times> string" where
  "psplit p =
     (let tail = after_last_sep p;
          head = take (length p - length tail) p
      in (if head \<noteq> [] \<and> head \<noteq> replicate (length head) CHR ''/'' then rstrip_sep head else head,
          tail))"

definition basename :: "string \<Rightarrow> string" where
  "basename p = after_last_sep p"

text \<open>A file name that names one entry of a directory: what \<open>f\<close> is meant to be.\<close>

definition simple_name :: "string \<Rightarrow> bool" where
  "simple_name n \<longleftrightarrow> n \<noteq> [] \<and> CHR ''/'' \<notin> set n \<and> n \<noteq> ''.'' \<and> n \<noteq> ''..''"

subsection \<open>The kernel's reading of a path\<close>

fun split_sep :: "string \<Rightarrow> string list" where
  "split_sep [] = [[]]"
| "split_sep (c # cs) =
     (if c = CHR ''/'' then [] # split_sep cs
      else (case split_sep cs of [] \<Rightarrow> [[c]] | w # ws \<Rightarrow> (c # w) # ws))"

definition path_comps :: "string \<Rightarrow> string list" where
  "path_comps p = filter (\<lambda>w. w \<noteq> []) (split_sep p)"

subsection \<open>Lemmas\<close>
lemma split_sep_not_Nil [simp]: "split_sep p \<noteq> []"
  by (induction p) (auto split: list.split)

lemma split_sep_append_sep:
  "split_sep (a @ CHR ''/'' # b) = split_sep a @ split_sep b"
proof (induction a)
  case Nil
  then show ?case by simp
next
  case (Cons c a)
  then show ?case by (cases "split_sep a") (auto split: list.split)
qed

lemma path_comps_Nil [simp]: "path_comps [] = []"
  by (simp add: path_comps_def)

lemma path_comps_append_sep [path_simps]:
  "path_comps (a @ CHR ''/'' # b) = path_comps a @ path_comps b"
  by (simp add: path_comps_def split_sep_append_sep)

lemma split_sep_no_sep: "CHR ''/'' \<notin> set n \<Longrightarrow> split_sep n = [n]"
  by (induction n) auto

lemma path_comps_no_sep [path_simps]:
  "n \<noteq> [] \<Longrightarrow> CHR ''/'' \<notin> set n \<Longrightarrow> path_comps n = [n]"
  by (simp add: path_comps_def split_sep_no_sep)

lemma path_comps_seps [simp]: "path_comps (replicate k CHR ''/'') = []"
proof (induction k)
  case 0
  then show ?case by simp
next
  case (Suc k)
  have "path_comps (replicate (Suc k) CHR ''/'') = path_comps ([] @ CHR ''/'' # replicate k CHR ''/'')"
    by simp
  also have "\<dots> = []" using Suc by (simp only: path_comps_append_sep) simp
  finally show ?case .
qed

lemma path_comps_append_seps [path_simps]:
  "path_comps (x @ replicate k CHR ''/'') = path_comps x"
proof (cases k)
  case 0
  then show ?thesis by simp
next
  case (Suc j)
  then have "x @ replicate k CHR ''/'' = x @ CHR ''/'' # replicate j CHR ''/''" by simp
  then show ?thesis by (simp add: path_comps_append_sep)
qed

lemma takeWhile_is_sep_replicate:
  "takeWhile is_sep xs = replicate (length (takeWhile is_sep xs)) CHR ''/''"
  by (induction xs) (auto simp: is_sep_def)

lemma rstrip_sep_split:
  "s = rstrip_sep s @ replicate (length (takeWhile is_sep (rev s))) CHR ''/''"
proof -
  have "rev s = takeWhile is_sep (rev s) @ dropWhile is_sep (rev s)" by simp
  then have "s = rev (dropWhile is_sep (rev s)) @ rev (takeWhile is_sep (rev s))"
    by (metis rev_append rev_rev_ident)
  moreover have "rev (takeWhile is_sep (rev s)) = replicate (length (takeWhile is_sep (rev s))) CHR ''/''"
    by (subst takeWhile_is_sep_replicate) simp
  ultimately show ?thesis by (simp add: rstrip_sep_def)
qed

lemma path_comps_rstrip_sep [path_simps]: "path_comps (rstrip_sep s) = path_comps s"
  by (subst (2) rstrip_sep_split) (simp only: path_comps_append_seps)

lemma rstrip_sep_Nil_iff: "rstrip_sep s = [] \<longleftrightarrow> s = replicate (length s) CHR ''/''"
proof
  assume "rstrip_sep s = []"
  then have "s = replicate (length (takeWhile is_sep (rev s))) CHR ''/''"
    using rstrip_sep_split [of s] by simp
  then show "s = replicate (length s) CHR ''/''" by (metis length_replicate)
next
  assume "s = replicate (length s) CHR ''/''"
  then have "\<forall>c\<in>set (rev s). is_sep c" by (metis in_set_replicate set_rev is_sep_def)
  then show "rstrip_sep s = []" by (simp add: rstrip_sep_def)
qed

lemma take1_rstrip_sep:
  "s \<noteq> replicate (length s) CHR ''/'' \<Longrightarrow> take 1 (rstrip_sep s) = take 1 s"
proof -
  assume "s \<noteq> replicate (length s) CHR ''/''"
  then have ne: "rstrip_sep s \<noteq> []" by (simp add: rstrip_sep_Nil_iff)
  have "take 1 s = take 1 (rstrip_sep s @ replicate (length (takeWhile is_sep (rev s))) CHR ''/'')"
    by (subst rstrip_sep_split) simp
  with ne show ?thesis by (cases "rstrip_sep s") auto
qed


lemma after_last_sep_split:
  "p = rev (dropWhile (\<lambda>c. \<not> is_sep c) (rev p)) @ after_last_sep p"
proof -
  have "rev p = takeWhile (\<lambda>c. \<not> is_sep c) (rev p) @ dropWhile (\<lambda>c. \<not> is_sep c) (rev p)"
    by simp
  then show ?thesis unfolding after_last_sep_def by (metis rev_append rev_rev_ident)
qed

lemma take_before_last_sep:
  "take (length p - length (after_last_sep p)) p = rev (dropWhile (\<lambda>c. \<not> is_sep c) (rev p))"
  by (subst (1 2 3) after_last_sep_split) simp

lemma sep_notin_after_last_sep: "CHR ''/'' \<notin> set (after_last_sep p)"
  unfolding after_last_sep_def is_sep_def using set_takeWhileD by fastforce

lemma before_last_sep_cases:
  "rev (dropWhile (\<lambda>c. \<not> is_sep c) (rev p)) = [] \<or>
   (\<exists>q. rev (dropWhile (\<lambda>c. \<not> is_sep c) (rev p)) = q @ ''/'')"
proof (cases "dropWhile (\<lambda>c. \<not> is_sep c) (rev p)")
  case Nil
  then show ?thesis by simp
next
  case (Cons c r)
  then have "is_sep c" by (metis dropWhile_eq_Cons_conv)
  with Cons show ?thesis by (simp add: is_sep_def)
qed

lemma psplit_eq:
  "psplit p =
     (let pre = rev (dropWhile (\<lambda>c. \<not> is_sep c) (rev p))
      in (if pre \<noteq> [] \<and> pre \<noteq> replicate (length pre) CHR ''/'' then rstrip_sep pre else pre,
          after_last_sep p))"
  by (simp only: psplit_def take_before_last_sep Let_def)

lemma psplit_parts:
  assumes "psplit p = (h, t)"
  obtains pre where "p = pre @ t" and "t = after_last_sep p"
    and "pre = [] \<or> (\<exists>q. pre = q @ ''/'')"
    and "h = (if pre \<noteq> [] \<and> pre \<noteq> replicate (length pre) CHR ''/'' then rstrip_sep pre else pre)"
proof -
  define pre where "pre = rev (dropWhile (\<lambda>c. \<not> is_sep c) (rev p))"
  have "(if pre \<noteq> [] \<and> pre \<noteq> replicate (length pre) CHR ''/'' then rstrip_sep pre else pre,
         after_last_sep p) = (h, t)"
    using assms by (simp only: psplit_eq pre_def Let_def)
  then have t: "t = after_last_sep p"
    and h: "h = (if pre \<noteq> [] \<and> pre \<noteq> replicate (length pre) CHR ''/'' then rstrip_sep pre else pre)"
    by simp_all
  have "p = pre @ t" using after_last_sep_split [of p] by (simp add: t pre_def)
  moreover have "pre = [] \<or> (\<exists>q. pre = q @ ''/'')"
    using before_last_sep_cases [of p] by (simp add: pre_def)
  ultimately show ?thesis using that t h by blast
qed

lemma length_head_le: "length (if pre \<noteq> [] \<and> pre \<noteq> replicate (length pre) CHR ''/'' then rstrip_sep pre else pre) \<le> length pre"
  using rstrip_sep_split [of pre] by (auto simp del: length_rev) (metis le_add1 length_append)

lemma take1_head:
  "(if pre \<noteq> [] \<and> pre \<noteq> replicate (length pre) CHR ''/'' then rstrip_sep pre else pre) \<noteq> [] \<Longrightarrow>
   take 1 (if pre \<noteq> [] \<and> pre \<noteq> replicate (length pre) CHR ''/'' then rstrip_sep pre else pre) = take 1 pre"
  using take1_rstrip_sep by auto

text \<open>The shape of \<open>os.path.split\<close>: the tail is the last component, the head reads
  as the components before it, from the same starting point.\<close>

lemma psplit_comps:
  assumes "psplit p = (h, t)" and "t \<noteq> []"
  shows "path_comps p = path_comps h @ [t]"
    and "h \<noteq> [] \<Longrightarrow> startswith_sep h = startswith_sep p"
    and "h = [] \<Longrightarrow> p = t"
    and "length h < length p"
proof -
  obtain pre where p: "p = pre @ t" and t: "t = after_last_sep p"
    and pre: "pre = [] \<or> (\<exists>q. pre = q @ ''/'')"
    and h: "h = (if pre \<noteq> [] \<and> pre \<noteq> replicate (length pre) CHR ''/'' then rstrip_sep pre else pre)"
    using psplit_parts [OF assms(1)] by blast
  have tc: "path_comps t = [t]"
    using assms(2) sep_notin_after_last_sep [of p] by (simp add: t path_comps_no_sep)
  have hc: "path_comps h = path_comps pre" by (simp add: h path_comps_rstrip_sep)
  show "path_comps p = path_comps h @ [t]"
  proof (cases "pre = []")
    case True
    then show ?thesis using p tc hc by simp
  next
    case False
    then obtain q where q: "pre = q @ ''/''" using pre by blast
    have "path_comps p = path_comps (q @ CHR ''/'' # t)" using p q by simp
    also have "\<dots> = path_comps pre @ [t]"
      using q tc path_comps_append_sep [of q "[]"] by (simp add: path_comps_append_sep)
    finally show ?thesis using hc by simp
  qed
  show "h \<noteq> [] \<Longrightarrow> startswith_sep h = startswith_sep p"
  proof -
    assume "h \<noteq> []"
    then have "pre \<noteq> []" by (auto simp: h split: if_splits)
    then have "take 1 p = take 1 pre" using p by (cases pre) auto
    moreover have "take 1 h = take 1 pre" using h take1_head \<open>h \<noteq> []\<close> by simp
    ultimately show ?thesis by (simp add: startswith_sep_def)
  qed
  show "h = [] \<Longrightarrow> p = t"
    using p h rstrip_sep_Nil_iff by (auto split: if_splits)
  have "length h \<le> length pre" using h length_head_le by simp
  then show "length h < length p" using p assms(2) by (cases t) auto
qed

lemma psplit_no_tail:
  assumes "psplit p = (h, [])"
  shows "path_comps h = path_comps p" and "length h \<le> length p"
    and "h \<noteq> [] \<Longrightarrow> startswith_sep h = startswith_sep p"
proof -
  obtain pre where p: "p = pre @ []"
    and h: "h = (if pre \<noteq> [] \<and> pre \<noteq> replicate (length pre) CHR ''/'' then rstrip_sep pre else pre)"
    using psplit_parts [OF assms(1)] by blast
  show "path_comps h = path_comps p" by (simp add: h p path_comps_rstrip_sep)
  show "length h \<le> length p" using h p length_head_le by simp
  show "h \<noteq> [] \<Longrightarrow> startswith_sep h = startswith_sep p"
    using h p take1_head by (simp add: startswith_sep_def)
qed

lemma pjoin_absolute: "startswith_sep b \<Longrightarrow> pjoin a b = b"
  by (simp add: pjoin_def)

lemma pjoin_relative_cases:
  assumes "\<not> startswith_sep b"
  obtains "a = []" and "pjoin a b = b"
  | q where "pjoin a b = q @ CHR ''/'' # b" and "path_comps q = path_comps a"
proof (cases "a = []")
  case True
  then show ?thesis using assms that(1) by (simp add: pjoin_def)
next
  case False
  show ?thesis
  proof (cases "endswith_sep a")
    case True
    then have a: "a = butlast a @ ''/''"
      using append_butlast_last_id [of a] by (auto simp: endswith_sep_def)
    then have "pjoin a b = butlast a @ CHR ''/'' # b"
      using assms True by (simp add: pjoin_def)
    moreover have "path_comps (butlast a) = path_comps a"
      using a path_comps_append_sep [of "butlast a" "[]"] by simp
    ultimately show ?thesis using that(2) by blast
  next
    case False
    then have "pjoin a b = a @ CHR ''/'' # b" using assms \<open>a \<noteq> []\<close> by (simp add: pjoin_def)
    then show ?thesis using that(2) by blast
  qed
qed

lemma path_comps_pjoin [path_simps]:
  "\<not> startswith_sep b \<Longrightarrow> path_comps (pjoin a b) = path_comps a @ path_comps b"
  by (erule pjoin_relative_cases [where a = a]) (simp_all add: path_comps_append_sep)

lemma pjoin_not_endswith: "simple_name f \<Longrightarrow> \<not> endswith_sep (pjoin p f)"
  by (cases f rule: rev_cases) (auto simp: pjoin_def endswith_sep_def simple_name_def startswith_sep_def)

lemma startswith_sep_pjoin:
  "\<not> startswith_sep b \<Longrightarrow> a \<noteq> [] \<Longrightarrow> startswith_sep (pjoin a b) = startswith_sep a"
  by (cases a) (auto simp: pjoin_def startswith_sep_def)

text \<open>A simple name with a separator appended joins to the same components,
  and the joined path ends with a separator.\<close>

lemma simple_name_sep_not_start: "simple_name g \<Longrightarrow> \<not> startswith_sep (g @ ''/'') \<and> \<not> startswith_sep g"
  by (cases g) (auto simp: simple_name_def startswith_sep_def)

lemma pjoin_sep_comps: "simple_name g \<Longrightarrow> path_comps (pjoin a (g @ ''/'')) = path_comps (pjoin a g)"
  using simple_name_sep_not_start [of g] path_comps_append_sep [of g "[]"]
  by (simp add: path_comps_pjoin)

lemma pjoin_sep_start:
  assumes g: "simple_name g"
  shows "startswith_sep (pjoin a (g @ ''/'')) = startswith_sep (pjoin a g)"
proof (cases "a = []")
  case True
  then show ?thesis using simple_name_sep_not_start [OF g] by (simp add: pjoin_def)
next
  case False
  then show ?thesis using simple_name_sep_not_start [OF g] by (simp add: startswith_sep_pjoin)
qed

lemma pjoin_simple_not_Nil: "simple_name g \<Longrightarrow> pjoin a g \<noteq> [] \<and> pjoin a (g @ ''/'') \<noteq> []"
  by (simp add: pjoin_def simple_name_def)

lemma pjoin_sep_endswith: "simple_name g \<Longrightarrow> endswith_sep (pjoin a (g @ ''/''))"
  using simple_name_sep_not_start [of g] by (simp add: pjoin_def endswith_sep_def)

lemma after_last_sep_no_sep: "CHR ''/'' \<notin> set n \<Longrightarrow> after_last_sep n = n"
proof -
  assume "CHR ''/'' \<notin> set n"
  then have "takeWhile (\<lambda>c. \<not> is_sep c) (rev n) = rev n"
    by (auto simp: takeWhile_eq_all_conv is_sep_def)
  then show ?thesis unfolding after_last_sep_def by (simp only: rev_rev_ident)
qed

lemma after_last_sep_sep_append:
  "CHR ''/'' \<notin> set n \<Longrightarrow> after_last_sep (q @ CHR ''/'' # n) = n"
proof -
  assume n: "CHR ''/'' \<notin> set n"
  have "takeWhile (\<lambda>c. \<not> is_sep c) (rev n @ CHR ''/'' # rev q) = rev n"
    using n by (subst takeWhile_append2) (auto simp: is_sep_def)
  then show ?thesis by (simp add: after_last_sep_def)
qed

text \<open>Round trips between joining and splitting.\<close>

lemma basename_pjoin:
  assumes "n \<noteq> []" and "CHR ''/'' \<notin> set n"
  shows "basename (pjoin a n) = n"
proof -
  have "\<not> startswith_sep n" using assms by (cases n) (auto simp: startswith_sep_def)
  then show ?thesis
    by (rule pjoin_relative_cases [where a = a])
       (simp_all add: basename_def after_last_sep_no_sep after_last_sep_sep_append assms(2))
qed

text \<open>C14: round trip of \<open>os.path.join\<close> and \<open>os.path.split\<close>.  Joining a
  non-empty name without a separator to a head that does not end with one and splitting the
  result gives back the head and the name.\<close>

lemma psplit_pjoin:
  assumes "n \<noteq> []" and "CHR ''/'' \<notin> set n" and "\<not> endswith_sep a"
  shows "psplit (pjoin a n) = (a, n)"
proof -
  have ns: "\<not> startswith_sep n" using assms by (cases n) (auto simp: startswith_sep_def)
  show ?thesis
  proof (cases "a = []")
  case True
  have "dropWhile (\<lambda>c. \<not> is_sep c) (rev n) = []"
    using assms(2) by (auto simp: dropWhile_eq_Nil_conv is_sep_def)
  then show ?thesis using True ns assms(2) by (simp add: psplit_eq pjoin_def after_last_sep_no_sep)
next
  case False
  with ns have j: "pjoin a n = a @ CHR ''/'' # n" using False assms(3) by (simp add: pjoin_def)
  have pre: "rev (dropWhile (\<lambda>c. \<not> is_sep c) (rev (a @ CHR ''/'' # n))) = a @ ''/''"
  proof -
    have "dropWhile (\<lambda>c. \<not> is_sep c) (rev n @ CHR ''/'' # rev a) = CHR ''/'' # rev a"
      using assms(2) by (subst dropWhile_append2) (auto simp: is_sep_def)
    moreover have "rev (a @ CHR ''/'' # n) = rev n @ CHR ''/'' # rev a" by simp
    ultimately show ?thesis by (metis rev.simps(2) rev_rev_ident append_Nil rev_append)
  qed
  have nr: "a @ ''/'' \<noteq> replicate (length (a @ ''/'')) CHR ''/''"
  proof
    assume eq: "a @ ''/'' = replicate (length (a @ ''/'')) CHR ''/''"
    from eq have "a @ ''/'' = replicate (length a) CHR ''/'' @ ''/''"
      by (simp add: replicate_append_same)
    then have "a = replicate (length a) CHR ''/''" by simp
    then have "last a = CHR ''/''" using False by (metis last_replicate length_0_conv)
    with False assms(3) show False by (simp add: endswith_sep_def)
  qed
  have rs: "rstrip_sep (a @ ''/'') = a"
    using False assms(3) by (cases a rule: rev_cases) (auto simp: rstrip_sep_def endswith_sep_def is_sep_def)
  have "psplit (a @ CHR ''/'' # n) =
    (if a @ ''/'' \<noteq> [] \<and> a @ ''/'' \<noteq> replicate (length (a @ ''/'')) CHR ''/''
     then rstrip_sep (a @ ''/'') else a @ ''/'', n)"
    by (simp only: psplit_eq pre Let_def after_last_sep_sep_append [OF assms(2)])
  then show ?thesis using nr rs by (simp only: j) simp
qed
qed

lemma rstrip_sep_not_endswith: "\<not> endswith_sep (rstrip_sep s)"
proof
  assume e: "endswith_sep (rstrip_sep s)"
  then have ne: "dropWhile is_sep (rev s) \<noteq> []" by (auto simp: endswith_sep_def rstrip_sep_def)
  have "last (rstrip_sep s) = hd (dropWhile is_sep (rev s))"
    using ne by (simp add: rstrip_sep_def last_rev)
  moreover have "\<not> is_sep (hd (dropWhile is_sep (rev s)))" using ne by (rule hd_dropWhile)
  ultimately show False using e by (simp add: endswith_sep_def is_sep_def)
qed

lemma head_not_endswith:
  assumes "psplit name = (h0, t0)" and "path_comps h0 \<noteq> []"
  shows "\<not> endswith_sep h0"
proof -
  obtain pre0 where
    h0: "h0 = (if pre0 \<noteq> [] \<and> pre0 \<noteq> replicate (length pre0) CHR ''/'' then rstrip_sep pre0 else pre0)"
    using psplit_parts [OF assms(1)] by blast
  show ?thesis
  proof (cases "pre0 \<noteq> [] \<and> pre0 \<noteq> replicate (length pre0) CHR ''/''")
    case True
    have "h0 = rstrip_sep pre0" using h0 if_P [OF True] by (rule trans)
    then show ?thesis by (simp only: rstrip_sep_not_endswith not_False_eq_True)
  next
    case False
    have "h0 = pre0" using h0 if_not_P [OF False] by (rule trans)
    moreover have "pre0 = [] \<or> pre0 = replicate (length pre0) CHR ''/''" using False by blast
    ultimately have "path_comps h0 = []" by (metis path_comps_Nil path_comps_seps)
    then show ?thesis using assms(2) by (simp only:)
  qed
qed

lemma psplit_no_tail_shape:
  assumes "psplit p = (h, [])"
  shows "p = [] \<or> endswith_sep p"
proof -
  obtain pre where p: "p = pre @ []" and "[] = after_last_sep p"
    and d: "pre = [] \<or> (\<exists>q. pre = q @ ''/'')"
    and "h = (if pre \<noteq> [] \<and> pre \<noteq> replicate (length pre) CHR ''/'' then rstrip_sep pre else pre)"
    by (rule psplit_parts [OF assms])
  from d show ?thesis
  proof
    assume "pre = []"
    then show ?thesis using p by simp
  next
    assume "\<exists>q. pre = q @ ''/''"
    then obtain q where "pre = q @ ''/''" by blast
    then show ?thesis using p by (simp add: endswith_sep_def)
  qed
qed

lemma after_last_sep_comps:
  "after_last_sep p \<noteq> [] \<Longrightarrow> path_comps (after_last_sep p) = [after_last_sep p] \<and>
     \<not> startswith_sep (after_last_sep p)"
  using sep_notin_after_last_sep [of p]
  by (cases "after_last_sep p") (auto simp: path_comps_no_sep startswith_sep_def)

text \<open>Splitting twice when the first split has no tail, as \<open>os.makedirs\<close> does,
  leaves a strictly shorter head when the tail is not empty.\<close>

lemma psplit_twice_shorter:
  assumes "(case psplit name of (h, t) \<Rightarrow> if t = [] then psplit h else (h, t)) = (head, tail)" and "tail \<noteq> []"
  shows "length head < length name"
proof (cases "psplit name")
  case (Pair h0 t0)
  show ?thesis
  proof (cases "t0 = []")
    case True
    with Pair assms have "psplit h0 = (head, tail)" by simp
    then have "length head < length h0" using assms(2) by (rule psplit_comps(4))
    moreover have "length h0 \<le> length name" using Pair True psplit_no_tail(2) by blast
    ultimately show ?thesis by simp
  next
    case False
    with Pair assms have "psplit name = (head, tail)" by simp
    then show ?thesis using assms(2) by (rule psplit_comps(4))
  qed
qed

end
