(* ===== verification/Posix.thy ===== *)
theory Posix
  imports Paths
begin

text \<open>
  The file system the installer acts on, and the system calls through which
  CPython reaches it.  This is the environment of the program, not code of the
  repository: it is modelled after POSIX and Linux, in the spirit of the Unix
  model of the Isabelle distribution, with what the installer depends on:
  \<^item> a file system is a map from locations (the list of names from the root) to
    inodes, each a regular file with its bytes, a directory or a named pipe
    (FIFO), with permission bits in a \<open>32 word\<close> (\<open>mode_t\<close>);
  \<^item> the process has a current directory and a umask;
  \<^item> a path string is resolved component by component from the root or from the
    current directory; \<open>.\<close> stays, \<open>..\<close> goes up (the root is its own parent),
    a component under a non-directory fails with \<open>ENOTDIR\<close>, a missing one with
    \<open>ENOENT\<close>, and every directory searched needs its search bit;
  \<^item> the process is an ordinary user that owns every file: the owner bits decide
    (read 0o400 = 256, write 0o200 = 128, search 0o100 = 64).
  \<^item> a path that ends with a separator must name a directory: lookups of an
    existing inode fail with \<open>ENOTDIR\<close> otherwise, and \<open>open\<close> with
    \<open>O_CREAT\<close> fails with \<open>EISDIR\<close> (\<open>mkdir\<close> accepts it).
  \<^item> opening a named pipe waits for a process at its other end; the model has
    one process, and gives such an open its \<open>O_NONBLOCK\<close> outcome: reading
    finds end of file at once, opening for writing fails with \<open>ENXIO\<close>
    (\<open>fifo(7)\<close>, \<open>open(2)\<close>).  \<open>shutil.copyfile\<close> never gets there: it refuses
    a named pipe before it opens anything.
  Not modelled: symbolic and hard links, device files and sockets, mount
  points, other users and groups, running out of space.
\<close>

unbundle bit_operations_syntax

type_synonym name = string
type_synonym loc = "name list"
type_synonym bytes = "8 word list"
type_synonym mode = "32 word"

datatype inode = File bytes mode | Dir mode | Fifo mode

type_synonym tree = "loc \<rightharpoonup> inode"

record fsys =
  tree :: tree
  cwd :: loc
  umask :: mode

datatype errno = ENOENT | ENOTDIR | EISDIR | EEXIST | EACCES | ENXIO

primrec mode_of :: "inode \<Rightarrow> mode" where
  "mode_of (File c m) = m"
| "mode_of (Dir m) = m"
| "mode_of (Fifo m) = m"

primrec set_mode :: "inode \<Rightarrow> mode \<Rightarrow> inode" where
  "set_mode (File c m) m' = File c m'"
| "set_mode (Dir m) m' = Dir m'"
| "set_mode (Fifo m) m' = Fifo m'"

definition is_dir :: "tree \<Rightarrow> loc \<Rightarrow> bool" where
  "is_dir t l \<longleftrightarrow> (case t l of Some (Dir m) \<Rightarrow> True | _ \<Rightarrow> False)"

definition is_file :: "tree \<Rightarrow> loc \<Rightarrow> bool" where
  "is_file t l \<longleftrightarrow> (case t l of Some (File c m) \<Rightarrow> True | _ \<Rightarrow> False)"

definition is_nondir :: "tree \<Rightarrow> loc \<Rightarrow> bool" where
  "is_nondir t l \<longleftrightarrow> (case t l of Some (Dir m) \<Rightarrow> False | Some n \<Rightarrow> True | None \<Rightarrow> False)"

definition can_read :: "mode \<Rightarrow> bool" where
  "can_read m \<longleftrightarrow> m AND 256 \<noteq> 0"

definition can_write :: "mode \<Rightarrow> bool" where
  "can_write m \<longleftrightarrow> m AND 128 \<noteq> 0"

definition can_exec :: "mode \<Rightarrow> bool" where
  "can_exec m \<longleftrightarrow> m AND 64 \<noteq> 0"

subsection \<open>Path resolution\<close>

text \<open>The walk of the kernel over the components of a path, from a directory.\<close>

fun walk :: "tree \<Rightarrow> loc \<Rightarrow> name list \<Rightarrow> errno + loc" where
  "walk t cur [] = Inr cur"
| "walk t cur (c # cs) =
     (case t cur of
        Some (Dir m) \<Rightarrow>
          if \<not> can_exec m then Inl EACCES
          else if c = ''.'' then walk t cur cs
          else if c = ''..'' then walk t (butlast cur) cs
          else (case t (cur @ [c]) of
                  None \<Rightarrow> Inl ENOENT
                | Some n \<Rightarrow> walk t (cur @ [c]) cs)
      | Some _ \<Rightarrow> Inl ENOTDIR
      | None \<Rightarrow> Inl ENOENT)"

definition start_loc :: "fsys \<Rightarrow> string \<Rightarrow> loc" where
  "start_loc s p = (if startswith_sep p then [] else cwd s)"

text \<open>Resolution of a path that must name an existing inode (\<open>stat\<close>, \<open>open\<close>
  for reading, \<open>chmod\<close>).  The empty path names nothing; a path that ends
  with a separator must name a directory (\<open>ENOTDIR\<close> otherwise).\<close>

definition resolve :: "fsys \<Rightarrow> string \<Rightarrow> errno + loc" where
  "resolve s p =
     (if p = [] then Inl ENOENT
      else (case walk (tree s) (start_loc s p) (path_comps p) of
              Inl e \<Rightarrow> Inl e
            | Inr l \<Rightarrow> if endswith_sep p \<and> \<not> is_dir (tree s) l then Inl ENOTDIR else Inr l))"

text \<open>Resolution for the calls that may create their last component
  (\<open>mkdir\<close>, \<open>open\<close> with \<open>O_CREAT\<close>): all but the last component are walked,
  the last one is looked up in the directory reached.\<close>

datatype target = Existing loc | Absent loc

primrec target_loc :: "target \<Rightarrow> loc" where
  "target_loc (Existing l) = l"
| "target_loc (Absent l) = l"

definition lookup_last :: "tree \<Rightarrow> loc \<Rightarrow> name \<Rightarrow> errno + target" where
  "lookup_last t d c =
     (case t d of
        Some (Dir m) \<Rightarrow>
          if \<not> can_exec m then Inl EACCES
          else if c = ''.'' then Inr (Existing d)
          else if c = ''..'' then Inr (Existing (butlast d))
          else (case t (d @ [c]) of
                  None \<Rightarrow> Inr (Absent (d @ [c]))
                | Some n \<Rightarrow> Inr (Existing (d @ [c])))
      | Some _ \<Rightarrow> Inl ENOTDIR
      | None \<Rightarrow> Inl ENOENT)"

definition resolve_target :: "fsys \<Rightarrow> string \<Rightarrow> errno + target" where
  "resolve_target s p =
     (if p = [] then Inl ENOENT
      else if path_comps p = [] then Inr (Existing (start_loc s p))
      else (case walk (tree s) (start_loc s p) (butlast (path_comps p)) of
              Inl e \<Rightarrow> Inl e
            | Inr d \<Rightarrow> lookup_last (tree s) d (last (path_comps p))))"

subsection \<open>System calls\<close>

text \<open>\<open>stat(2)\<close>.\<close>

definition sys_stat :: "fsys \<Rightarrow> string \<Rightarrow> errno + inode" where
  "sys_stat s p =
     (case resolve s p of
        Inl e \<Rightarrow> Inl e
      | Inr l \<Rightarrow> (case tree s l of Some n \<Rightarrow> Inr n | None \<Rightarrow> Inl ENOENT))"

text \<open>\<open>mkdir(2)\<close>: the new directory gets \<open>mode & ~umask & 0o1777\<close>; the
  parent needs write permission.  An existing last component is \<open>EEXIST\<close>,
  whatever it is.\<close>

definition sys_mkdir :: "fsys \<Rightarrow> string \<Rightarrow> mode \<Rightarrow> errno + fsys" where
  "sys_mkdir s p m =
     (case resolve_target s p of
        Inl e \<Rightarrow> Inl e
      | Inr (Existing l) \<Rightarrow> Inl EEXIST
      | Inr (Absent l) \<Rightarrow>
          (case tree s (butlast l) of
             Some (Dir pm) \<Rightarrow>
               if \<not> can_write pm then Inl EACCES
               else Inr (s\<lparr>tree := (tree s)(l \<mapsto> Dir (m AND NOT (umask s) AND 1023))\<rparr>)
           | _ \<Rightarrow> Inl ENOENT))"

text \<open>\<open>open(p, O_RDONLY)\<close> and reading to the end, as \<open>open(p, 'rb').read()\<close>:
  the kernel checks the read bit; Python's \<open>FileIO\<close> then refuses a directory
  with \<open>EISDIR\<close>.\<close>

definition sys_read :: "fsys \<Rightarrow> string \<Rightarrow> errno + bytes" where
  "sys_read s p =
     (case resolve s p of
        Inl e \<Rightarrow> Inl e
      | Inr l \<Rightarrow>
          (case tree s l of
             Some (File c m) \<Rightarrow> if can_read m then Inr c else Inl EACCES
           | Some (Dir m) \<Rightarrow> if can_read m then Inl EISDIR else Inl EACCES
           | Some (Fifo m) \<Rightarrow> if can_read m then Inr [] else Inl EACCES
           | None \<Rightarrow> Inl ENOENT))"

text \<open>\<open>open(p, O_WRONLY | O_CREAT | O_TRUNC, 0o666)\<close> followed by writing the
  bytes, as \<open>open(p, 'wb')\<close> and \<open>write\<close>: an existing regular file is
  truncated and keeps its mode; a new one gets \<open>0o666 & ~umask\<close>.  With
  \<open>O_CREAT\<close>, a path that ends with a separator is \<open>EISDIR\<close> once its
  directory is reached, whatever the last component names.\<close>

definition sys_write :: "fsys \<Rightarrow> string \<Rightarrow> bytes \<Rightarrow> errno + fsys" where
  "sys_write s p c =
     (case resolve_target s p of
        Inl e \<Rightarrow> Inl e
      | Inr t \<Rightarrow>
          if endswith_sep p then Inl EISDIR
          else (case t of
                  Existing l \<Rightarrow>
                    (case tree s l of
                       Some (Dir m) \<Rightarrow> Inl EISDIR
                     | Some (Fifo m) \<Rightarrow> if can_write m then Inl ENXIO else Inl EACCES
                     | Some (File old m) \<Rightarrow>
                         if can_write m then Inr (s\<lparr>tree := (tree s)(l \<mapsto> File c m)\<rparr>) else Inl EACCES
                     | None \<Rightarrow> Inl ENOENT)
                | Absent l \<Rightarrow>
                    (case tree s (butlast l) of
                       Some (Dir pm) \<Rightarrow>
                         if can_write pm
                         then Inr (s\<lparr>tree := (tree s)(l \<mapsto> File c (438 AND NOT (umask s)))\<rparr>)
                         else Inl EACCES
                     | _ \<Rightarrow> Inl ENOENT)))"

text \<open>The two halves of \<open>open(p, 'wb')\<close> and the writes that follow:
  \<open>sys_open_wb\<close> opens with \<open>O_WRONLY | O_CREAT | O_TRUNC\<close> and mode \<open>0o666\<close>,
  leaving an empty regular file and the location the descriptor refers to;
  \<open>sys_append\<close> is \<open>write(2)\<close> on that descriptor, at its position, the end of
  what was written so far.  Permissions are checked at the open only.\<close>

definition sys_open_wb :: "fsys \<Rightarrow> string \<Rightarrow> errno + (fsys \<times> loc)" where
  "sys_open_wb s p =
     (case resolve_target s p of
        Inl e \<Rightarrow> Inl e
      | Inr t \<Rightarrow>
          if endswith_sep p then Inl EISDIR
          else (case t of
                  Existing l \<Rightarrow>
                    (case tree s l of
                       Some (Dir m) \<Rightarrow> Inl EISDIR
                     | Some (Fifo m) \<Rightarrow> if can_write m then Inl ENXIO else Inl EACCES
                     | Some (File old m) \<Rightarrow>
                         if can_write m then Inr (s\<lparr>tree := (tree s)(l \<mapsto> File [] m)\<rparr>, l) else Inl EACCES
                     | None \<Rightarrow> Inl ENOENT)
                | Absent l \<Rightarrow>
                    (case tree s (butlast l) of
                       Some (Dir pm) \<Rightarrow>
                         if can_write pm
                         then Inr (s\<lparr>tree := (tree s)(l \<mapsto> File [] (438 AND NOT (umask s)))\<rparr>, l)
                         else Inl EACCES
                     | _ \<Rightarrow> Inl ENOENT)))"

definition sys_append :: "fsys \<Rightarrow> loc \<Rightarrow> bytes \<Rightarrow> fsys" where
  "sys_append s l c =
     (case tree s l of
        Some (File old m) \<Rightarrow> s\<lparr>tree := (tree s)(l \<mapsto> File (old @ c) m)\<rparr>
      | _ \<Rightarrow> s)"

text \<open>\<open>chmod(2)\<close> by the owner: the mode keeps its low twelve bits.\<close>

definition sys_chmod :: "fsys \<Rightarrow> string \<Rightarrow> mode \<Rightarrow> errno + fsys" where
  "sys_chmod s p m =
     (case resolve s p of
        Inl e \<Rightarrow> Inl e
      | Inr l \<Rightarrow>
          (case tree s l of
             Some n \<Rightarrow> Inr (s\<lparr>tree := (tree s)(l \<mapsto> set_mode n (m AND 4095))\<rparr>)
           | None \<Rightarrow> Inl ENOENT))"

text \<open>Components that only name entries: no \<open>.\<close> and no \<open>..\<close>.\<close>

definition plain_comps :: "name list \<Rightarrow> bool" where
  "plain_comps cs \<longleftrightarrow> (\<forall>c\<in>set cs. c \<noteq> ''.'' \<and> c \<noteq> ''..'')"

primrec is_dir_node :: "inode \<Rightarrow> bool" where
  "is_dir_node (Dir m) = True"
| "is_dir_node (File c m) = False"
| "is_dir_node (Fifo m) = False"

text \<open>A mode that gives its owner read, write and search.\<close>

definition owner_rwx :: "mode \<Rightarrow> bool" where
  "owner_rwx m \<longleftrightarrow> bit m 6 \<and> bit m 7 \<and> bit m 8"

subsection \<open>Invariants\<close>

text \<open>A well-formed file system: the root and the current directory are
  directories, the parent of every inode is a directory, every name on a
  location is a simple name, and no mode has bits beyond the twelve permission
  and special bits that \<open>chmod\<close> keeps.\<close>

definition wf_fs :: "fsys \<Rightarrow> bool" where
  "wf_fs s \<longleftrightarrow>
     is_dir (tree s) [] \<and> is_dir (tree s) (cwd s) \<and>
     (\<forall>l\<in>dom (tree s). l \<noteq> [] \<longrightarrow> is_dir (tree s) (butlast l)) \<and>
     (\<forall>l\<in>dom (tree s). \<forall>c\<in>set l. simple_name c) \<and>
     (\<forall>n\<in>ran (tree s). mode_of n \<le> 4095)"

text \<open>The permissions under which the installer can work: every directory is
  readable, writable and searchable by its owner, every file readable and
  writable, and there is no named pipe (\<open>shutil.copy\<close> refuses one); the
  umask leaves the owner bits alone.\<close>

primrec node_perm_ok :: "inode \<Rightarrow> bool" where
  "node_perm_ok (Dir m) \<longleftrightarrow> can_read m \<and> can_write m \<and> can_exec m"
| "node_perm_ok (File c m) \<longleftrightarrow> can_read m \<and> can_write m"
| "node_perm_ok (Fifo m) \<longleftrightarrow> False"

definition perm_ok :: "fsys \<Rightarrow> bool" where
  "perm_ok s \<longleftrightarrow> (\<forall>n\<in>ran (tree s). node_perm_ok n)"

definition umask_ok :: "fsys \<Rightarrow> bool" where
  "umask_ok s \<longleftrightarrow> umask s AND 448 = 0"

text \<open>The three together: the states in which the installer is studied.\<close>

definition fs_inv :: "fsys \<Rightarrow> bool" where
  "fs_inv s \<longleftrightarrow> wf_fs s \<and> perm_ok s \<and> umask_ok s"

subsection \<open>Resolution\<close>
lemma walk_append:
  "walk t st (xs @ ys) = (case walk t st xs of Inl e \<Rightarrow> Inl e | Inr l \<Rightarrow> walk t l ys)"
proof (induction xs arbitrary: st)
  case Nil
  then show ?case by simp
next
  case (Cons c xs)
  then show ?case by (auto split: option.split inode.split)
qed

text \<open>The last step of a walk is the lookup of the last component.\<close>

lemma walk_snoc:
  "walk t st (cs @ [c]) =
     (case walk t st cs of
        Inl e \<Rightarrow> Inl e
      | Inr d \<Rightarrow> (case lookup_last t d c of
                   Inl e \<Rightarrow> Inl e
                 | Inr (Existing l) \<Rightarrow> Inr l
                 | Inr (Absent l) \<Rightarrow> Inl ENOENT))"
  by (auto simp: walk_append lookup_last_def split: sum.split option.split inode.split)

lemma walk_via_target:
  assumes ne: "p \<noteq> []"
  shows "walk (tree s) (start_loc s p) (path_comps p) =
     (case resolve_target s p of
        Inl e \<Rightarrow> Inl e
      | Inr (Existing l) \<Rightarrow> Inr l
      | Inr (Absent l) \<Rightarrow> Inl ENOENT)"
proof (cases "path_comps p = []")
  case True
  then show ?thesis using ne by (simp add: resolve_target_def)
next
  case False
  then obtain cs c where cs: "path_comps p = cs @ [c]" by (metis rev_exhaust)
  with False ne show ?thesis
    by (simp add: resolve_target_def walk_snoc split: sum.split)
qed

lemma resolve_via_target:
  "resolve s p =
     (case resolve_target s p of
        Inl e \<Rightarrow> Inl e
      | Inr (Existing l) \<Rightarrow> if endswith_sep p \<and> \<not> is_dir (tree s) l then Inl ENOTDIR else Inr l
      | Inr (Absent l) \<Rightarrow> Inl ENOENT)"
proof (cases "p = []")
  case True
  then show ?thesis by (simp add: resolve_def resolve_target_def)
next
  case False
  then show ?thesis by (simp add: resolve_def walk_via_target split: sum.split target.split)
qed

lemma resolve_Existing:
  "resolve_target s p = Inr (Existing l) \<Longrightarrow> \<not> endswith_sep p \<Longrightarrow> resolve s p = Inr l"
  by (simp add: resolve_via_target)

lemma resolve_Inr_dir: "resolve s p = Inr l \<Longrightarrow> endswith_sep p \<Longrightarrow> is_dir (tree s) l"
  by (auto simp: resolve_def split: if_splits sum.splits)

lemma resolve_walk:
  "resolve s p = Inr l \<Longrightarrow> p \<noteq> [] \<and> walk (tree s) (start_loc s p) (path_comps p) = Inr l"
  by (auto simp: resolve_def split: if_splits sum.splits)

lemma resolve_iff_walk:
  "resolve s p = Inr l \<longleftrightarrow>
     p \<noteq> [] \<and> walk (tree s) (start_loc s p) (path_comps p) = Inr l \<and> (endswith_sep p \<longrightarrow> is_dir (tree s) l)"
  by (auto simp: resolve_def split: sum.splits)

lemma walk_Cons_Inr:
  assumes "walk t st (c # cs) = Inr l"
  obtains m where "t st = Some (Dir m)" and "can_exec m"
    and "c = ''.''" and "walk t st cs = Inr l"
  | m where "t st = Some (Dir m)" and "can_exec m"
    and "c = ''..''" and "walk t (butlast st) cs = Inr l"
  | m n where "t st = Some (Dir m)" and "can_exec m" and "c \<noteq> ''.''" and "c \<noteq> ''..''"
    and "t (st @ [c]) = Some n" and "walk t (st @ [c]) cs = Inr l"
proof (cases "t st")
  case None
  then show ?thesis using assms by simp
next
  case (Some x)
  show ?thesis
  proof (cases x)
    case (File b m)
    then show ?thesis using assms Some by simp
  next
    case (Fifo m)
    then show ?thesis using assms Some by simp
  next
    case (Dir m)
    with Some assms have x: "can_exec m" by (auto split: if_splits)
    consider "c = ''.''" | "c = ''..''" | "c \<noteq> ''.''" "c \<noteq> ''..''" by blast
    then show ?thesis
    proof cases
      case 1
      then show ?thesis using that(1) assms Some Dir x by simp
    next
      case 2
      then show ?thesis using that(2) assms Some Dir x by simp
    next
      case 3
      with assms Some Dir x obtain n where "t (st @ [c]) = Some n" "walk t (st @ [c]) cs = Inr l"
        by (auto split: option.splits)
      then show ?thesis using that(3) Some Dir x 3 by blast
    qed
  qed
qed

lemma walk_Cons_dir: "walk t st (c # cs) = Inr l \<Longrightarrow> is_dir t st"
  by (erule walk_Cons_Inr) (simp_all add: is_dir_def)

lemma walk_plain:
  "plain_comps cs \<Longrightarrow> walk t st cs = Inr l \<Longrightarrow> l = st @ cs"
proof (induction cs arbitrary: st)
  case Nil
  then show ?case by simp
next
  case (Cons c cs)
  have pc: "plain_comps cs" and c: "c \<noteq> ''.''" "c \<noteq> ''..''"
    using Cons.prems(1) by (auto simp: plain_comps_def)
  from Cons.prems(2) show ?case
  proof (cases rule: walk_Cons_Inr)
    case 1
    then show ?thesis using c by simp
  next
    case 2
    then show ?thesis using c by simp
  next
    case 3
    then have "l = (st @ [c]) @ cs" using Cons.IH pc by blast
    then show ?thesis by simp
  qed
qed

lemma walk_plain_ok:
  assumes "plain_comps cs"
    and "\<forall>k<length cs. \<exists>m. t (st @ take k cs) = Some (Dir m) \<and> can_exec m"
    and "cs \<noteq> [] \<longrightarrow> t (st @ cs) \<noteq> None"
  shows "walk t st cs = Inr (st @ cs)"
  using assms
proof (induction cs arbitrary: st)
  case Nil
  then show ?case by simp
next
  case (Cons c cs)
  from Cons.prems(2) obtain m where m: "t st = Some (Dir m)" "can_exec m" by fastforce
  have c: "c \<noteq> ''.'' \<and> c \<noteq> ''..''" using Cons.prems(1) by (simp add: plain_comps_def)
  have "walk t (st @ [c]) cs = Inr ((st @ [c]) @ cs)"
  proof (rule Cons.IH)
    show "plain_comps cs" using Cons.prems(1) by (simp add: plain_comps_def)
    show "\<forall>k<length cs. \<exists>m. t ((st @ [c]) @ take k cs) = Some (Dir m) \<and> can_exec m"
    proof (intro allI impI)
      fix k assume "k < length cs"
      then show "\<exists>m. t ((st @ [c]) @ take k cs) = Some (Dir m) \<and> can_exec m"
        using Cons.prems(2) [rule_format, of "Suc k"] by simp
    qed
    show "cs \<noteq> [] \<longrightarrow> t ((st @ [c]) @ cs) \<noteq> None" using Cons.prems(3) by simp
  qed
  moreover have "t (st @ [c]) \<noteq> None"
  proof (cases cs)
    case Nil
    then show ?thesis using Cons.prems(3) by simp
  next
    case (Cons c' cs')
    then show ?thesis using Cons.prems(2) [rule_format, of 1] by auto
  qed
  ultimately show ?case using m c by (cases "t (st @ [c])") simp_all
qed

lemma wf_fs_parent:
  "wf_fs s \<Longrightarrow> tree s l \<noteq> None \<Longrightarrow> tree s (butlast l) \<noteq> None"
  by (cases "l = []") (auto simp: wf_fs_def is_dir_def split: option.splits)

lemma walk_exists:
  "wf_fs s \<Longrightarrow> tree s st \<noteq> None \<Longrightarrow> walk (tree s) st cs = Inr l \<Longrightarrow> tree s l \<noteq> None"
proof (induction cs arbitrary: st)
  case Nil
  then show ?case by simp
next
  case (Cons c cs)
  obtain m where st: "tree s st = Some (Dir m)" and x: "can_exec m"
    using Cons.prems(3) by (auto split: option.splits inode.splits if_splits)
  consider (dot) "c = ''.''" | (up) "c = ''..''" | (name) "c \<noteq> ''.''" "c \<noteq> ''..''" by blast
  then show ?case
  proof cases
    case dot
    then have "walk (tree s) st cs = Inr l" using Cons.prems(3) st x by simp
    then show ?thesis using Cons.IH Cons.prems(1) st by blast
  next
    case up
    then have "walk (tree s) (butlast st) cs = Inr l" using Cons.prems(3) st x by simp
    moreover have "tree s (butlast st) \<noteq> None" using wf_fs_parent Cons.prems(1) st by blast
    ultimately show ?thesis using Cons.IH Cons.prems(1) by blast
  next
    case name
    then have "walk (tree s) (st @ [c]) cs = Inr l" and "tree s (st @ [c]) \<noteq> None"
      using Cons.prems(3) st x by (auto split: option.splits)
    then show ?thesis using Cons.IH Cons.prems(1) by blast
  qed
qed

lemma start_loc_exists: "wf_fs s \<Longrightarrow> tree s (start_loc s p) \<noteq> None"
  by (auto simp: wf_fs_def start_loc_def is_dir_def split: option.splits)

lemma resolve_exists: "wf_fs s \<Longrightarrow> resolve s p = Inr l \<Longrightarrow> tree s l \<noteq> None"
  using walk_exists [OF _ start_loc_exists] resolve_walk by blast


lemma split_sep_no_sep_words: "w \<in> set (split_sep p) \<Longrightarrow> CHR ''/'' \<notin> set w"
proof (induction p arbitrary: w)
  case Nil
  then show ?case by simp
next
  case (Cons c p)
  then show ?case by (auto split: if_splits list.splits)
qed

lemma path_comps_word:
  "c \<in> set (path_comps p) \<Longrightarrow> c \<noteq> [] \<and> CHR ''/'' \<notin> set c"
  by (auto simp: path_comps_def dest: split_sep_no_sep_words)

lemma mode_le_4095_and: "(m::mode) \<le> 4095 \<Longrightarrow> m AND 4095 = m"
proof -
  assume "m \<le> 4095"
  then have "uint m < 2 ^ 12" by (simp add: word_le_def)
  then have "m AND mask 12 = m" by (simp only: mask_eq_iff)
  then show ?thesis by (simp add: mask_eq_exp_minus_1)
qed

lemma can_read_bit: "can_read m \<longleftrightarrow> bit m 8"
  using and_exp_eq_0_iff_not_bit [of m 8] by (simp add: can_read_def)

lemma can_write_bit: "can_write m \<longleftrightarrow> bit m 7"
  using and_exp_eq_0_iff_not_bit [of m 7] by (simp add: can_write_def)

lemma can_exec_bit: "can_exec m \<longleftrightarrow> bit m 6"
  using and_exp_eq_0_iff_not_bit [of m 6] by (simp add: can_exec_def)

lemma and_zero_not_bit: "(u::mode) AND k = 0 \<Longrightarrow> bit k n \<Longrightarrow> \<not> bit u n"
proof
  assume z: "u AND k = 0" and k: "bit k n" and u: "bit u n"
  from k u have "bit (u AND k) n" by (simp add: bit_and_iff)
  with z show False by simp
qed

lemma umask_ok_bits:
  assumes "umask_ok s"
  shows "\<not> bit (umask s) 6" and "\<not> bit (umask s) 7" and "\<not> bit (umask s) 8"
  using assms and_zero_not_bit [of "umask s" 448] by (simp_all add: umask_ok_def)

text \<open>What a successful resolution for creation yields.\<close>

lemma lookup_last_Absent:
  "lookup_last t d c = Inr (Absent l) \<Longrightarrow>
     l = d @ [c] \<and> is_dir t d \<and> t l = None \<and> c \<noteq> ''.'' \<and> c \<noteq> ''..''"
  by (auto simp: lookup_last_def is_dir_def split: option.splits inode.splits if_splits)

lemma resolve_target_Absent:
  assumes "resolve_target s p = Inr (Absent l)"
  shows "\<exists>d c. l = d @ [c] \<and> is_dir (tree s) d \<and> tree s l = None \<and> simple_name c"
proof -
  from assms have ne: "p \<noteq> []" "path_comps p \<noteq> []"
    by (auto simp: resolve_target_def split: if_splits)
  with assms obtain d where "lookup_last (tree s) d (last (path_comps p)) = Inr (Absent l)"
    by (auto simp: resolve_target_def split: sum.splits)
  then have l: "l = d @ [last (path_comps p)]" "is_dir (tree s) d" "tree s l = None"
    and c: "last (path_comps p) \<noteq> ''.''" "last (path_comps p) \<noteq> ''..''"
    by (auto dest: lookup_last_Absent)
  have "last (path_comps p) \<noteq> [] \<and> CHR ''/'' \<notin> set (last (path_comps p))"
    using ne(2) path_comps_word [of "last (path_comps p)" p] by simp
  with c l show ?thesis by (auto simp: simple_name_def)
qed

lemma resolve_target_Existing:
  "wf_fs s \<Longrightarrow> resolve_target s p = Inr (Existing l) \<Longrightarrow> tree s l \<noteq> None"
proof -
  assume wf: "wf_fs s" and t: "resolve_target s p = Inr (Existing l)"
  then have "p \<noteq> []" by (auto simp: resolve_target_def)
  then have "walk (tree s) (start_loc s p) (path_comps p) = Inr l" using t by (simp add: walk_via_target)
  with wf show ?thesis using walk_exists [OF _ start_loc_exists] by blast
qed

subsection \<open>Preservation of the invariants\<close>

lemma is_dir_Some: "is_dir t l \<longleftrightarrow> (\<exists>n. t l = Some n \<and> is_dir_node n)"
  by (auto simp: is_dir_def split: option.splits inode.splits)

lemma wf_fs_add:
  assumes "wf_fs s" and "is_dir (tree s) d" and "simple_name c"
    and "tree s (d @ [c]) = None" and "mode_of n \<le> 4095"
  shows "wf_fs (s\<lparr>tree := (tree s)(d @ [c] \<mapsto> n)\<rparr>)"
proof -
  have dirs: "is_dir ((tree s)(d @ [c] \<mapsto> n)) l" if "is_dir (tree s) l" for l
    using that assms(4) by (auto simp: is_dir_def)
  have names: "\<forall>c\<in>set d. simple_name c"
    using assms(1,2) by (cases "d = []") (auto simp: wf_fs_def is_dir_def split: option.splits)
  show ?thesis
    using assms(1) dirs [OF assms(2)] names assms(3,5) ran_upd_subset [of "tree s" "d @ [c]" n]
    by (auto simp: wf_fs_def dirs)
qed

lemma wf_fs_replace:
  assumes "wf_fs s" and "tree s l = Some x" and "is_dir_node n = is_dir_node x"
    and "mode_of n \<le> 4095"
  shows "wf_fs (s\<lparr>tree := (tree s)(l \<mapsto> n)\<rparr>)"
proof -
  have dirs: "is_dir ((tree s)(l \<mapsto> n)) l' = is_dir (tree s) l'" for l'
    using assms(2,3) by (auto simp: is_dir_Some)
  have "dom ((tree s)(l \<mapsto> n)) = dom (tree s)" using assms(2) by auto
  then show ?thesis
    using assms(1,4) ran_upd_subset [of "tree s" l n] by (auto simp: wf_fs_def dirs)
qed


lemma mode_bits_low:
  "n < 12 \<Longrightarrow> bit ((m::mode) AND 4095) n = bit m n"
proof -
  assume "n < 12"
  then have "bit (mask 12 :: mode) n" by (simp add: bit_mask_iff)
  then have "bit (4095 :: mode) n" by (simp add: mask_eq_exp_minus_1)
  then show ?thesis by (simp add: bit_and_iff)
qed

lemma node_perm_ok_Dir_new:
  assumes "umask_ok s" and "bit m 6" and "bit m 7" and "bit m 8"
  shows "node_perm_ok (Dir (m AND NOT (umask s) AND 1023))"
  using assms umask_ok_bits [OF assms(1)]
  by (simp add: can_read_bit can_write_bit can_exec_bit bit_and_iff bit_not_iff)

lemma node_perm_ok_File_new:
  assumes "umask_ok s"
  shows "node_perm_ok (File c (438 AND NOT (umask s)))"
  using umask_ok_bits [OF assms(1)]
  by (simp add: can_read_bit can_write_bit bit_and_iff bit_not_iff)

lemma mode_bound_new_dir: "(m::mode) AND NOT u AND 1023 \<le> 4095"
  by (rule order_trans [OF word_and_le1], rule order_trans [OF word_and_le1]) simp

lemma mode_bound_new_file: "(438::mode) AND NOT u \<le> 4095"
  by (rule order_trans [OF word_and_le2]) simp

lemma mode_bound_chmod: "(m::mode) AND 4095 \<le> 4095"
  by (rule word_and_le1)

lemma perm_ok_upd:
  "perm_ok s \<Longrightarrow> node_perm_ok n \<Longrightarrow> perm_ok (s\<lparr>tree := (tree s)(l \<mapsto> n)\<rparr>)"
  using ran_upd_subset [of "tree s" l n] by (auto simp: perm_ok_def)

subsubsection \<open>\<open>mkdir\<close>\<close>

lemma sys_mkdir_Inr:
  assumes "sys_mkdir s p m = Inr s'"
  obtains l pm where "resolve_target s p = Inr (Absent l)"
    and "tree s (butlast l) = Some (Dir pm)" and "can_write pm"
    and "s' = s\<lparr>tree := (tree s)(l \<mapsto> Dir (m AND NOT (umask s) AND 1023))\<rparr>"
  using assms that
  by (auto simp: sys_mkdir_def split: sum.splits target.splits option.splits inode.splits if_splits)

lemma sys_mkdir_wf: "wf_fs s \<Longrightarrow> sys_mkdir s p m = Inr s' \<Longrightarrow> wf_fs s'"
proof -
  assume wf: "wf_fs s" and r: "sys_mkdir s p m = Inr s'"
  from r obtain l pm where t: "resolve_target s p = Inr (Absent l)"
    and "tree s (butlast l) = Some (Dir pm)" and "can_write pm"
    and s': "s' = s\<lparr>tree := (tree s)(l \<mapsto> Dir (m AND NOT (umask s) AND 1023))\<rparr>"
    by (rule sys_mkdir_Inr)
  from resolve_target_Absent [OF t] obtain d c where
    "l = d @ [c]" "is_dir (tree s) d" "tree s l = None" "simple_name c" by blast
  with wf show ?thesis by (simp add: s' wf_fs_add mode_bound_new_dir)
qed

lemma sys_mkdir_perm:
  "perm_ok s \<Longrightarrow> umask_ok s \<Longrightarrow> bit m 6 \<Longrightarrow> bit m 7 \<Longrightarrow> bit m 8 \<Longrightarrow>
   sys_mkdir s p m = Inr s' \<Longrightarrow> perm_ok s'"
proof -
  assume ok: "perm_ok s" "umask_ok s" "bit m 6" "bit m 7" "bit m 8"
    and r: "sys_mkdir s p m = Inr s'"
  from r obtain l pm where "resolve_target s p = Inr (Absent l)"
    and "tree s (butlast l) = Some (Dir pm)" and "can_write pm"
    and s': "s' = s\<lparr>tree := (tree s)(l \<mapsto> Dir (m AND NOT (umask s) AND 1023))\<rparr>"
    by (rule sys_mkdir_Inr)
  show ?thesis
    by (simp only: s') (rule perm_ok_upd [OF ok(1) node_perm_ok_Dir_new [OF ok(2-5)]])
qed

lemma sys_mkdir_proc: "sys_mkdir s p m = Inr s' \<Longrightarrow> cwd s' = cwd s \<and> umask s' = umask s"
  by (auto simp: sys_mkdir_def split: sum.splits target.splits option.splits inode.splits if_splits)


subsubsection \<open>\<open>open\<close> for writing\<close>

lemma sys_write_Inr:
  assumes "sys_write s p c = Inr s'"
  obtains (existing) l old m where "resolve_target s p = Inr (Existing l)"
    and "tree s l = Some (File old m)" and "can_write m"
    and "s' = s\<lparr>tree := (tree s)(l \<mapsto> File c m)\<rparr>"
  | (created) l pm where "resolve_target s p = Inr (Absent l)"
    and "tree s (butlast l) = Some (Dir pm)" and "can_write pm"
    and "s' = s\<lparr>tree := (tree s)(l \<mapsto> File c (438 AND NOT (umask s)))\<rparr>"
  using assms that
  by (auto simp: sys_write_def split: sum.splits target.splits option.splits inode.splits if_splits)

lemma sys_write_plain: "sys_write s p c = Inr s' \<Longrightarrow> \<not> endswith_sep p"
  by (auto simp: sys_write_def split: sum.splits)

lemma sys_write_wf: "wf_fs s \<Longrightarrow> sys_write s p c = Inr s' \<Longrightarrow> wf_fs s'"
proof -
  assume wf: "wf_fs s" and r: "sys_write s p c = Inr s'"
  from r show ?thesis
  proof (cases rule: sys_write_Inr)
    case (existing l old m)
    have "m \<le> 4095"
      using wf existing(2) by (auto simp: wf_fs_def ran_def)
    with wf existing show ?thesis by (simp add: wf_fs_replace)
  next
    case (created l pm)
    from resolve_target_Absent [OF created(1)] obtain d n where
      "l = d @ [n]" "is_dir (tree s) d" "tree s l = None" "simple_name n" by blast
    with wf created show ?thesis by (simp add: wf_fs_add mode_bound_new_file)
  qed
qed

lemma sys_write_perm:
  "perm_ok s \<Longrightarrow> umask_ok s \<Longrightarrow> sys_write s p c = Inr s' \<Longrightarrow> perm_ok s'"
proof -
  assume ok: "perm_ok s" "umask_ok s" and r: "sys_write s p c = Inr s'"
  from r show ?thesis
  proof (cases rule: sys_write_Inr)
    case (existing l old m)
    then have "node_perm_ok (File c m)"
      using ok(1) by (force simp: perm_ok_def ran_def)
    then show ?thesis by (simp only: existing(4)) (rule perm_ok_upd [OF ok(1)])
  next
    case (created l pm)
    show ?thesis
      by (simp only: created(4)) (rule perm_ok_upd [OF ok(1) node_perm_ok_File_new [OF ok(2)]])
  qed
qed

lemma sys_write_proc: "sys_write s p c = Inr s' \<Longrightarrow> cwd s' = cwd s \<and> umask s' = umask s"
  by (erule sys_write_Inr) simp_all

subsubsection \<open>\<open>chmod\<close>\<close>

lemma sys_chmod_Inr:
  assumes "sys_chmod s p m = Inr s'"
  obtains l n where "resolve s p = Inr l" and "tree s l = Some n"
    and "s' = s\<lparr>tree := (tree s)(l \<mapsto> set_mode n (m AND 4095))\<rparr>"
  using assms that by (auto simp: sys_chmod_def split: sum.splits option.splits)

lemma is_dir_node_set_mode [simp]: "is_dir_node (set_mode n m) = is_dir_node n"
  by (cases n) simp_all

lemma mode_of_set_mode [simp]: "mode_of (set_mode n m) = m"
  by (cases n) simp_all

lemma sys_chmod_wf: "wf_fs s \<Longrightarrow> sys_chmod s p m = Inr s' \<Longrightarrow> wf_fs s'"
  by (erule sys_chmod_Inr) (simp add: wf_fs_replace mode_bound_chmod)

lemma sys_chmod_proc: "sys_chmod s p m = Inr s' \<Longrightarrow> cwd s' = cwd s \<and> umask s' = umask s"
  by (erule sys_chmod_Inr) simp

text \<open>The owner's read and write bits survive the mask of \<open>chmod\<close>.\<close>

lemma node_perm_ok_File_chmod:
  "can_read m \<Longrightarrow> can_write m \<Longrightarrow> node_perm_ok (File c (m AND 4095))"
  by (simp add: can_read_bit can_write_bit mode_bits_low)

subsection \<open>Resolution along plain names\<close>

lemma walk_plain_prefixes:
  "plain_comps cs \<Longrightarrow> walk t st cs = Inr l \<Longrightarrow> 0 < k \<Longrightarrow> k \<le> length cs \<Longrightarrow> t (st @ take k cs) \<noteq> None"
proof (induction cs arbitrary: st k)
  case Nil
  then show ?case by simp
next
  case (Cons c cs)
  have pc: "plain_comps cs" and c: "c \<noteq> ''.''" "c \<noteq> ''..''"
    using Cons.prems(1) by (auto simp: plain_comps_def)
  from Cons.prems(2) show ?case
  proof (cases rule: walk_Cons_Inr)
    case 1
    then show ?thesis using c by simp
  next
    case 2
    then show ?thesis using c by simp
  next
    case (3 m n)
    show ?thesis
    proof (cases "k = 1")
      case True
      then show ?thesis using 3 by simp
    next
      case False
      then have "t ((st @ [c]) @ take (k - 1) cs) \<noteq> None"
        using Cons.IH [OF pc 3(6)] Cons.prems(3,4) by simp
      then show ?thesis using False Cons.prems(3) by (simp add: take_Cons')
    qed
  qed
qed

lemma exists_not_file_is_dir: "t l \<noteq> None \<Longrightarrow> \<not> is_nondir t l \<Longrightarrow> is_dir t l"
  by (auto simp: is_nondir_def is_dir_def split: option.splits inode.splits)

lemma is_dir_not_nondir: "is_dir t l \<Longrightarrow> \<not> is_nondir t l"
  by (auto simp: is_dir_def is_nondir_def split: option.splits inode.splits)

lemma is_file_nondir: "is_file t l \<Longrightarrow> is_nondir t l"
  by (auto simp: is_file_def is_nondir_def split: option.splits inode.splits)

lemma start_loc_dir: "wf_fs s \<Longrightarrow> is_dir (tree s) (start_loc s p)"
  by (simp add: wf_fs_def start_loc_def)

lemma resolve_target_snoc:
  "p \<noteq> [] \<Longrightarrow> path_comps p = cs @ [c] \<Longrightarrow> walk (tree s) (start_loc s p) cs = Inr d \<Longrightarrow>
   resolve_target s p = lookup_last (tree s) d c"
  by (simp add: resolve_target_def)

lemma perm_ok_dir_exec:
  "perm_ok s \<Longrightarrow> is_dir (tree s) l \<Longrightarrow> \<exists>m. tree s l = Some (Dir m) \<and> can_exec m"
  by (auto simp: perm_ok_def is_dir_def ran_def split: option.splits inode.splits)

subsection \<open>Writing a regular file\<close>

text \<open>Writing a regular file where no directory was leaves every successful walk
  as it was: a walk passes through directories only.\<close>

lemma walk_upd_nondir:
  "walk t st cs = Inr l \<Longrightarrow> \<not> is_dir t L \<Longrightarrow> \<not> is_dir_node n \<Longrightarrow> walk (t(L \<mapsto> n)) st cs = Inr l"
proof (induction cs arbitrary: st)
  case Nil
  then show ?case by simp
next
  case (Cons c cs)
  from Cons.prems(1) show ?case
  proof (cases rule: walk_Cons_Inr)
    case (1 m)
    then have "st \<noteq> L" using Cons.prems(2) by (auto simp: is_dir_def)
    with 1 Cons.IH Cons.prems(2,3) show ?thesis by simp
  next
    case (2 m)
    then have "st \<noteq> L" using Cons.prems(2) by (auto simp: is_dir_def)
    with 2 Cons.IH Cons.prems(2,3) show ?thesis by simp
  next
    case (3 m x)
    then have "st \<noteq> L" using Cons.prems(2) by (auto simp: is_dir_def)
    moreover have "(t(L \<mapsto> n)) (st @ [c]) \<noteq> None" using 3 by simp
    ultimately show ?thesis using 3 Cons.IH [OF 3(6) Cons.prems(2,3)] by (auto split: option.split)
  qed
qed

lemma resolve_upd_nondir:
  assumes r: "resolve s p = Inr l" and L: "\<not> is_dir (tree s) L" and n: "\<not> is_dir_node n"
  shows "resolve (s\<lparr>tree := (tree s)(L \<mapsto> n)\<rparr>) p = Inr l"
proof -
  have w: "p \<noteq> [] \<and> walk (tree s) (start_loc s p) (path_comps p) = Inr l" by (rule resolve_walk [OF r])
  then have "walk ((tree s)(L \<mapsto> n)) (start_loc s p) (path_comps p) = Inr l"
    using walk_upd_nondir L n by blast
  moreover have "endswith_sep p \<Longrightarrow> is_dir ((tree s)(L \<mapsto> n)) l"
    using resolve_Inr_dir [OF r] L by (cases "l = L") (auto simp: is_dir_def)
  ultimately show ?thesis using w by (auto simp: resolve_def start_loc_def)
qed

text \<open>After a regular file is written at the target of a path, the path resolves
  to it.\<close>

lemma resolve_after_write:
  assumes wf: "wf_fs s" and t: "resolve_target s p = Inr tg"
    and nd: "\<not> is_dir (tree s) (target_loc tg)" and n: "\<not> is_dir_node n"
    and ns: "\<not> endswith_sep p"
  shows "resolve (s\<lparr>tree := (tree s)(target_loc tg \<mapsto> n)\<rparr>) p = Inr (target_loc tg)"
proof -
  define L where "L = target_loc tg"
  define s' where "s' = s\<lparr>tree := (tree s)(L \<mapsto> n)\<rparr>"
  have ne: "p \<noteq> []" using t by (auto simp: resolve_target_def)
  have cne: "path_comps p \<noteq> []"
  proof
    assume "path_comps p = []"
    then have "tg = Existing (start_loc s p)" using t ne by (simp add: resolve_target_def)
    then show False using nd start_loc_dir [OF wf] by simp
  qed
  obtain cs c where cs: "path_comps p = cs @ [c]" using cne by (metis rev_exhaust)
  obtain d where w: "walk (tree s) (start_loc s p) cs = Inr d"
    and lk: "lookup_last (tree s) d c = Inr tg"
    using t ne cs by (auto simp: resolve_target_def split: sum.splits)
  obtain m where dm: "tree s d = Some (Dir m)" and x: "can_exec m"
    using lk by (auto simp: lookup_last_def split: option.splits inode.splits if_splits)
  have dL: "d \<noteq> L" using dm nd by (auto simp: L_def is_dir_def)
  have st: "start_loc s' p = start_loc s p" by (simp add: s'_def start_loc_def)
  have w': "walk (tree s') (start_loc s' p) cs = Inr d"
    unfolding st using walk_upd_nondir [OF w _ n, of L] nd by (simp add: s'_def L_def)
  have c: "c \<noteq> ''.'' \<and> c \<noteq> ''..'' \<and> L = d @ [c]"
  proof -
    have "c \<noteq> ''.''" using lk dm x nd by (auto simp: lookup_last_def is_dir_def)
    moreover have "c \<noteq> ''..''"
    proof
      assume "c = ''..''"
      then have "tg = Existing (butlast d)" using lk dm x by (simp add: lookup_last_def)
      moreover have "tree s (butlast d) \<noteq> None" using wf_fs_parent [OF wf] dm by simp
      moreover have "is_dir (tree s) (butlast d)"
        using wf dm by (cases "d = []") (auto simp: wf_fs_def)
      ultimately show False using nd by simp
    qed
    moreover have "L = d @ [c]"
      using lk dm x calculation by (auto simp: lookup_last_def L_def split: option.splits)
    ultimately show ?thesis by simp
  qed
  have "lookup_last (tree s') d c = Inr (Existing L)"
    using dm x dL c by (simp add: s'_def lookup_last_def)
  then have "resolve_target s' p = Inr (Existing L)"
    using ne cs w' by (simp add: resolve_target_def)
  then show ?thesis using resolve_Existing [OF _ ns] by (simp add: s'_def L_def)
qed

lemma perm_ok_node: "perm_ok s \<Longrightarrow> tree s l = Some n \<Longrightarrow> node_perm_ok n"
  by (auto simp: perm_ok_def ran_def)

lemma wf_mode_bound: "wf_fs s \<Longrightarrow> tree s l = Some n \<Longrightarrow> mode_of n \<le> 4095"
  by (auto simp: wf_fs_def ran_def)

lemma resolve_Inr_target:
  "resolve s p = Inr l \<Longrightarrow> resolve_target s p = Inr (Existing l)"
  by (auto simp: resolve_via_target split: sum.splits target.splits if_splits)

text \<open>Under the working permissions, writing a regular file at a target that is
  not a directory succeeds, and changes the tree at that target only.\<close>

lemma sys_write_ok:
  assumes wf: "wf_fs s" and perm: "perm_ok s" and t: "resolve_target s p = Inr tg"
    and nd: "\<not> is_dir (tree s) (target_loc tg)" and ns: "\<not> endswith_sep p"
  obtains m0 where "sys_write s p c = Inr (s\<lparr>tree := (tree s)(target_loc tg \<mapsto> File c m0)\<rparr>)"
proof (cases tg)
  case (Existing l)
  then have "tree s l \<noteq> None" using resolve_target_Existing [OF wf] t by blast
  with nd Existing perm obtain old m where f: "tree s l = Some (File old m)"
    by (auto simp: is_dir_def perm_ok_def ran_def split: option.splits inode.splits)
  then have "can_write m" using perm_ok_node [OF perm f] by simp
  then show ?thesis using that [of m] t f Existing ns by (simp add: sys_write_def)
next
  case (Absent l)
  then obtain d x where l: "l = d @ [x]" and d: "is_dir (tree s) d"
    using resolve_target_Absent t by blast
  then obtain pm where "tree s d = Some (Dir pm)"
    by (auto simp: is_dir_def split: option.splits inode.splits)
  moreover have "can_write pm" using perm_ok_node [OF perm calculation] by simp
  ultimately show ?thesis using that t Absent l ns by (simp add: sys_write_def)
qed

subsection \<open>Resolution across changes of the tree\<close>

lemma walk_mono:
  assumes "walk t st cs = Inr l"
    and dirs: "\<forall>x m. t x = Some (Dir m) \<longrightarrow> t' x = Some (Dir m)" and dom: "dom t \<subseteq> dom t'"
  shows "walk t' st cs = Inr l"
  using assms(1)
proof (induction cs arbitrary: st)
  case Nil
  then show ?case by simp
next
  case (Cons c cs)
  from Cons.prems show ?case
  proof (cases rule: walk_Cons_Inr)
    case (1 m)
    then show ?thesis using Cons.IH dirs by simp
  next
    case (2 m)
    then show ?thesis using Cons.IH dirs by simp
  next
    case (3 m n)
    then obtain n' where "t' (st @ [c]) = Some n'" using dom by blast
    then show ?thesis using 3 Cons.IH dirs by simp
  qed
qed

lemma resolve_mono:
  assumes r: "resolve s p = Inr l" and dirs: "\<forall>x m. tree s x = Some (Dir m) \<longrightarrow> t' x = Some (Dir m)"
    and dom: "dom (tree s) \<subseteq> dom t'"
  shows "resolve (s\<lparr>tree := t'\<rparr>) p = Inr l"
proof -
  have w: "p \<noteq> [] \<and> walk (tree s) (start_loc s p) (path_comps p) = Inr l" by (rule resolve_walk [OF r])
  then have "walk t' (start_loc s p) (path_comps p) = Inr l" using walk_mono dirs dom by blast
  moreover have "endswith_sep p \<Longrightarrow> is_dir t' l"
    using resolve_Inr_dir [OF r] dirs by (auto simp: is_dir_def split: option.splits inode.splits)
  ultimately show ?thesis using w by (auto simp: resolve_def start_loc_def)
qed

lemma simple_name_not_sep: "simple_name f \<Longrightarrow> \<not> startswith_sep f"
  by (cases f) (auto simp: simple_name_def startswith_sep_def)

text \<open>Joining a simple name to a path that resolves to a directory names the
  entry of that directory.\<close>

lemma resolve_target_pjoin:
  assumes perm: "perm_ok s" and d: "resolve s p = Inr D" "is_dir (tree s) D"
    and f: "simple_name f"
  shows "resolve_target s (pjoin p f) =
           Inr (if tree s (D @ [f]) = None then Absent (D @ [f]) else Existing (D @ [f]))"
proof -
  have ne: "p \<noteq> []" using d(1) by (auto simp: resolve_def)
  have ns: "\<not> startswith_sep f" by (rule simple_name_not_sep [OF f])
  have comps: "path_comps (pjoin p f) = path_comps p @ [f]"
    using f ns by (simp add: path_comps_pjoin path_comps_no_sep simple_name_def)
  have st: "start_loc s (pjoin p f) = start_loc s p"
    using ns ne by (simp add: start_loc_def startswith_sep_pjoin)
  have ne': "pjoin p f \<noteq> []" using comps by auto
  have w: "walk (tree s) (start_loc s (pjoin p f)) (path_comps p) = Inr D"
    using resolve_walk [OF d(1)] st by simp
  obtain m where "tree s D = Some (Dir m)" "can_exec m" using perm_ok_dir_exec [OF perm d(2)] by blast
  then show ?thesis
    using resolve_target_snoc [OF ne' comps w] f
    by (auto simp: lookup_last_def simple_name_def split: option.split)
qed

lemma resolve_pjoin:
  "perm_ok s \<Longrightarrow> resolve s p = Inr D \<Longrightarrow> is_dir (tree s) D \<Longrightarrow> simple_name f \<Longrightarrow>
   tree s (D @ [f]) \<noteq> None \<Longrightarrow> resolve s (pjoin p f) = Inr (D @ [f])"
  by (simp add: resolve_via_target resolve_target_pjoin pjoin_not_endswith)

lemma resolve_target_pjoin_sep:
  "simple_name g \<Longrightarrow> resolve_target s (pjoin a (g @ ''/'')) = resolve_target s (pjoin a g)"
  using pjoin_simple_not_Nil [of g a]
  by (simp only: resolve_target_def start_loc_def pjoin_sep_comps pjoin_sep_start)

text \<open>Putting a regular file in a directory, under a simple name where no
  directory is, keeps the file system well formed.\<close>

lemma wf_fs_put_file:
  assumes "wf_fs s" and "is_dir (tree s) D" and "simple_name f"
    and "\<not> is_dir (tree s) (D @ [f])" and "m \<le> 4095"
  shows "wf_fs (s\<lparr>tree := (tree s)(D @ [f] \<mapsto> File c m)\<rparr>)"
proof (cases "tree s (D @ [f])")
  case None
  then show ?thesis using assms wf_fs_add by simp
next
  case (Some x)
  then have "\<not> is_dir_node x" using assms(4) by (simp add: is_dir_Some)
  then show ?thesis using wf_fs_replace [OF assms(1) Some] assms(5) by simp
qed

text \<open>Writing a regular file at the target of a path, where no directory is,
  keeps the file system well formed.\<close>

lemma wf_fs_write_target:
  assumes wf: "wf_fs s" and t: "resolve_target s p = Inr tg"
    and nd: "\<not> is_dir (tree s) (target_loc tg)" and m: "m \<le> 4095"
  shows "wf_fs (s\<lparr>tree := (tree s)(target_loc tg \<mapsto> File c m)\<rparr>)"
proof (cases tg)
  case (Existing l)
  then obtain x where "tree s l = Some x" using resolve_target_Existing [OF wf] t by blast
  moreover have "\<not> is_dir_node x" using nd Existing calculation by (simp add: is_dir_Some)
  ultimately show ?thesis using wf_fs_replace [OF wf] m Existing by simp
next
  case (Absent l)
  then obtain d x where "l = d @ [x]" "is_dir (tree s) d" "tree s l = None" "simple_name x"
    using resolve_target_Absent t by blast
  then show ?thesis using wf_fs_add [OF wf] m Absent by simp
qed

text \<open>\<open>mkdir\<close> only adds an entry: every directory stays as it was.\<close>

lemma sys_mkdir_keeps_dir:
  "sys_mkdir s p m = Inr s' \<Longrightarrow> tree s x = Some (Dir d) \<Longrightarrow> tree s' x = Some (Dir d)"
proof (erule sys_mkdir_Inr)
  fix l pm assume "resolve_target s p = Inr (Absent l)"
    and "s' = s\<lparr>tree := (tree s)(l \<mapsto> Dir (m AND NOT (umask s) AND 1023))\<rparr>"
    and "tree s x = Some (Dir d)"
  moreover have "tree s l = None" using resolve_target_Absent calculation(1) by blast
  ultimately show ?thesis by auto
qed

subsection \<open>Writing in chunks\<close>

text \<open>Successive writes on a descriptor append their chunks; opening with
  truncation and writing the bytes, whatever the chunks, is the one-shot write.\<close>

lemma foldl_sys_append:
  "tree s l = Some (File old m) \<Longrightarrow>
   foldl (\<lambda>s' c. sys_append s' l c) s cs = s\<lparr>tree := (tree s)(l \<mapsto> File (old @ concat cs) m)\<rparr>"
proof (induction cs arbitrary: s old)
  case Nil
  then show ?case by (cases s) (auto simp: fun_upd_idem)
next
  case (Cons c cs)
  have "sys_append s l c = s\<lparr>tree := (tree s)(l \<mapsto> File (old @ c) m)\<rparr>"
    using Cons.prems by (simp add: sys_append_def)
  then show ?case using Cons.IH [of "s\<lparr>tree := (tree s)(l \<mapsto> File (old @ c) m)\<rparr>" "old @ c"]
    by simp (rule arg_cong [where f = "\<lambda>t. s\<lparr>tree := t\<rparr>"], auto)
qed

lemma sys_write_open_append:
  "sys_write s p c =
     (case sys_open_wb s p of
        Inl e \<Rightarrow> Inl e
      | Inr (s1, l) \<Rightarrow> Inr (foldl (\<lambda>s' x. sys_append s' l x) s1 cs))"
  if "concat cs = c"
  using that
  by (auto simp: sys_write_def sys_open_wb_def foldl_sys_append
      split: sum.split target.split option.split inode.split)

end
