(* ===== verification/PyOs.thy ===== *)
theory PyOs
  imports Posix
begin

text \<open>
  The part of CPython's \<open>os\<close> module that the installer reaches: the
  exceptions raised for failed system calls, \<open>os.stat\<close>, \<open>os.path.exists\<close>,
  \<open>os.path.isdir\<close>, \<open>os.mkdir\<close>, \<open>os.chmod\<close>, and \<open>os.makedirs\<close>, which line 5
  of \<open>src/install_bindist.py\<close> calls with \<open>exist_ok=True\<close>.

  A Python computation is a value of \<open>'a pyio\<close>: it takes the file system and
  returns an exception or a value, and the file system it leaves.  An
  \<open>OSError\<close> is raised with the subclass that CPython chooses for its errno and
  carries the offending path.  \<open>os.makedirs\<close> is the recursive function of
  \<open>Lib/os.py\<close>, line by line: it splits its argument with
  \<open>os.path.split\<close>, creates a missing head first (passing \<open>exist_ok\<close> and the
  default mode \<open>0o777\<close>), ignores a \<open>FileExistsError\<close> from that call, stops
  on a tail \<open>.\<close>, and finally calls \<open>os.mkdir\<close>, swallowing its error when
  \<open>exist_ok\<close> holds and the path is a directory.  It terminates because the head
  it recurses on is strictly shorter than its argument.
\<close>

text \<open>The exceptions the installer can raise: the \<open>OSError\<close> subclasses with
  the path they name, \<open>OSError\<close> itself for an errno without a subclass
  (\<open>ENXIO\<close>), \<open>shutil.SameFileError\<close> with both paths,
  \<open>shutil.SpecialFileError\<close> with the named pipe, the
  \<open>FileNotFoundError('Directory does not exist: dst')\<close> that
  \<open>shutil.copyfile\<close> raises in place of an \<open>IsADirectoryError\<close>
  (\<open>DirectoryDoesNotExist\<close>), and the \<open>IndexError\<close> of \<open>sys.argv\<close>.\<close>

datatype pyexc =
    FileNotFoundError string
  | FileExistsError string
  | NotADirectoryError string
  | IsADirectoryError string
  | PermissionError string
  | SameFileError string string
  | SpecialFileError string
  | DirectoryDoesNotExist string
  | OSError errno string
  | IndexError

type_synonym 'a pyio = "(pyexc, fsys, 'a) exn"

text \<open>The \<open>OSError\<close> subclass that CPython raises for an errno.\<close>

primrec oserror :: "errno \<Rightarrow> string \<Rightarrow> pyexc" where
  "oserror ENOENT p = FileNotFoundError p"
| "oserror ENOTDIR p = NotADirectoryError p"
| "oserror EISDIR p = IsADirectoryError p"
| "oserror EEXIST p = FileExistsError p"
| "oserror EACCES p = PermissionError p"
| "oserror ENXIO p = OSError ENXIO p"

primrec is_file_exists :: "pyexc \<Rightarrow> bool" where
  "is_file_exists (FileNotFoundError p) = False"
| "is_file_exists (FileExistsError p) = True"
| "is_file_exists (NotADirectoryError p) = False"
| "is_file_exists (IsADirectoryError p) = False"
| "is_file_exists (PermissionError p) = False"
| "is_file_exists (SameFileError p q) = False"
| "is_file_exists (SpecialFileError p) = False"
| "is_file_exists (DirectoryDoesNotExist p) = False"
| "is_file_exists (OSError e p) = False"
| "is_file_exists IndexError = False"

text \<open>\<open>os.stat(p)\<close>.\<close>

definition os_stat :: "string \<Rightarrow> inode pyio" where
  "os_stat p s = (case sys_stat s p of Inl e \<Rightarrow> (Inl (oserror e p), s) | Inr n \<Rightarrow> (Inr n, s))"

text \<open>\<open>os.path.exists(p)\<close> and \<open>os.path.isdir(p)\<close>: \<open>os.stat\<close>, with any
  \<open>OSError\<close> read as \<open>False\<close>.\<close>

definition path_exists :: "fsys \<Rightarrow> string \<Rightarrow> bool" where
  "path_exists s p = (case sys_stat s p of Inr n \<Rightarrow> True | Inl e \<Rightarrow> False)"

definition path_isdir :: "fsys \<Rightarrow> string \<Rightarrow> bool" where
  "path_isdir s p = (case sys_stat s p of Inr n \<Rightarrow> is_dir_node n | Inl e \<Rightarrow> False)"

text \<open>\<open>os.mkdir(p, mode)\<close> and \<open>os.chmod(p, mode)\<close>.\<close>

definition os_mkdir :: "string \<Rightarrow> mode \<Rightarrow> unit pyio" where
  "os_mkdir p m s = (case sys_mkdir s p m of Inl e \<Rightarrow> (Inl (oserror e p), s) | Inr s' \<Rightarrow> (Inr (), s'))"

definition os_chmod :: "string \<Rightarrow> mode \<Rightarrow> unit pyio" where
  "os_chmod p m s = (case sys_chmod s p m of Inl e \<Rightarrow> (Inl (oserror e p), s) | Inr s' \<Rightarrow> (Inr (), s'))"

subsection \<open>\<open>os.makedirs\<close>\<close>

text \<open>What \<open>os.makedirs\<close> is meant to do, on the tree: create every missing
  directory along a list of names, from a starting directory.\<close>

fun add_dirs :: "tree \<Rightarrow> loc \<Rightarrow> name list \<Rightarrow> mode \<Rightarrow> tree" where
  "add_dirs t cur [] m = t"
| "add_dirs t cur (c # cs) m =
     add_dirs (if t (cur @ [c]) = None then t(cur @ [c] \<mapsto> Dir m) else t) (cur @ [c]) cs m"


text \<open>Lines 210--212 of \<open>os.makedirs\<close>: split, and split the head again when
  the path ends with a separator.\<close>

definition makedirs_split :: "string \<Rightarrow> string \<times> string" where
  "makedirs_split name =
     (case psplit name of (head, tail) \<Rightarrow> if tail = [] then psplit head else (head, tail))"

text \<open>Lines 224--230: \<open>mkdir\<close>, and on an \<open>OSError\<close> re-raise unless
  \<open>exist_ok\<close> holds and the path is a directory.\<close>

definition mkdir_exist_ok :: "string \<Rightarrow> mode \<Rightarrow> bool \<Rightarrow> unit pyio" where
  "mkdir_exist_ok name mode exist_ok s =
     (case os_mkdir name mode s of
        (Inl e, s') \<Rightarrow> if \<not> exist_ok \<or> \<not> path_isdir s' name then (Inl e, s') else (Inr (), s')
      | (Inr u, s') \<Rightarrow> (Inr u, s'))"

text \<open>Nothing but directories stands on the way from a directory along a list
  of names: no regular file and no named pipe.\<close>

fun no_file_on :: "tree \<Rightarrow> loc \<Rightarrow> name list \<Rightarrow> bool" where
  "no_file_on t cur [] \<longleftrightarrow> \<not> is_nondir t cur"
| "no_file_on t cur (c # cs) \<longleftrightarrow> \<not> is_nondir t cur \<and> no_file_on t (cur @ [c]) cs"

function makedirs :: "string \<Rightarrow> mode \<Rightarrow> bool \<Rightarrow> unit pyio" where
  "makedirs name mode exist_ok s =
     (case makedirs_split name of
        (head, tail) \<Rightarrow>
          if head \<noteq> [] \<and> tail \<noteq> [] \<and> \<not> path_exists s head then
            (case makedirs head 511 exist_ok s of
               (r, s1) \<Rightarrow>
                 if (case r of Inl e \<Rightarrow> \<not> is_file_exists e | Inr u \<Rightarrow> False) then (r, s1)
                 else if tail = ''.'' then (Inr (), s1)
                 else mkdir_exist_ok name mode exist_ok s1)
          else mkdir_exist_ok name mode exist_ok s)"
  by pat_completeness auto

termination
  by (relation "measure (\<lambda>(name, mode, exist_ok, s). length name)")
     (auto intro: psplit_twice_shorter [folded makedirs_split_def, OF sym])

declare makedirs.simps [simp del]

lemma makedirs_split_shorter:
  "makedirs_split name = (head, tail) \<Longrightarrow> tail \<noteq> [] \<Longrightarrow> length head < length name"
  unfolding makedirs_split_def by (rule psplit_twice_shorter)

subsection \<open>Lemmas on \<open>os.makedirs\<close>\<close>


lemma makedirs_eq:
  assumes "makedirs_split name = (head, tail)"
  shows "makedirs name mode ok s =
    (if head \<noteq> [] \<and> tail \<noteq> [] \<and> \<not> path_exists s head then
       (case makedirs head 511 ok s of
          (r, s1) \<Rightarrow>
            if (case r of Inl e \<Rightarrow> \<not> is_file_exists e | Inr u \<Rightarrow> False) then (r, s1)
            else if tail = ''.'' then (Inr (), s1)
            else mkdir_exist_ok name mode ok s1)
     else mkdir_exist_ok name mode ok s)"
  using assms by (simp add: makedirs.simps [of name])

lemma makedirs_no_recursion:
  assumes "makedirs_split name = (head, tail)"
    and "\<not> (head \<noteq> [] \<and> tail \<noteq> [] \<and> \<not> path_exists s head)"
  shows "makedirs name mode ok s = mkdir_exist_ok name mode ok s"
  by (subst makedirs_eq [OF assms(1)], rule if_not_P [OF assms(2)])

lemma makedirs_recursion:
  assumes "makedirs_split name = (head, tail)"
    and "head \<noteq> [] \<and> tail \<noteq> [] \<and> \<not> path_exists s head"
    and "makedirs head 511 ok s = (r, s1)"
  shows "makedirs name mode ok s =
     (if (case r of Inl e \<Rightarrow> \<not> is_file_exists e | Inr u \<Rightarrow> False) then (r, s1)
      else if tail = ''.'' then (Inr (), s1)
      else mkdir_exist_ok name mode ok s1)"
  by (subst makedirs_eq [OF assms(1)], subst if_P [OF assms(2)], simp add: assms(3))

lemma mkdir_exist_ok_keeps:
  assumes "\<And>s s'. P s \<Longrightarrow> sys_mkdir s name m = Inr s' \<Longrightarrow> P s'" and "P s"
  shows "P (snd (mkdir_exist_ok name m ok s))"
  using assms by (auto simp: mkdir_exist_ok_def os_mkdir_def split: sum.split)

text \<open>Any property of the file system that \<open>mkdir\<close> keeps, \<open>os.makedirs\<close> keeps,
  whether it succeeds or raises.\<close>

lemma makedirs_keeps:
  assumes step: "\<And>s s' p m'. P s \<Longrightarrow> Q m' \<Longrightarrow> sys_mkdir s p m' = Inr s' \<Longrightarrow> P s'"
    and "Q 511" and "Q m" and "P s"
  shows "P (snd (makedirs name m ok s))"
  using assms(3,4)
proof (induction name m ok s rule: makedirs.induct)
  case (1 name mode exist_ok s)
  obtain head tail where split: "makedirs_split name = (head, tail)" by fastforce
  have leaf: "P (snd (mkdir_exist_ok name mode exist_ok s'))" if "P s'" for s'
    using mkdir_exist_ok_keeps [of P name mode s' exist_ok] step "1.prems"(1) that by blast
  show ?case
  proof (cases "head \<noteq> [] \<and> tail \<noteq> [] \<and> \<not> path_exists s head")
    case True
    obtain r s1 where rec: "makedirs head 511 exist_ok s = (r, s1)" by fastforce
    have "P s1" using "1.IH" [OF split [symmetric] True assms(2) "1.prems"(2)] rec by simp
    then show ?thesis
      using leaf [of s1] by (simp add: makedirs_recursion [OF split True rec])
  next
    case False
    show ?thesis
    proof -
      have "makedirs name mode exist_ok s = mkdir_exist_ok name mode exist_ok s"
        by (rule makedirs_no_recursion [OF split False])
      then show ?thesis using leaf [of s] "1.prems"(2) by simp
    qed
  qed
qed

lemma makedirs_wf: "wf_fs s \<Longrightarrow> wf_fs (snd (makedirs name m ok s))"
  by (rule makedirs_keeps [where Q = "\<lambda>m. True"]) (auto intro: sys_mkdir_wf)

lemma makedirs_perm:
  "perm_ok s \<Longrightarrow> umask_ok s \<Longrightarrow> owner_rwx m \<Longrightarrow> perm_ok (snd (makedirs name m ok s))"
  by (rule makedirs_keeps [where P = "\<lambda>s. perm_ok s \<and> umask_ok s" and Q = owner_rwx, THEN conjunct1])
     (auto simp: owner_rwx_def umask_ok_def dest: sys_mkdir_perm sys_mkdir_proc)

lemma makedirs_proc:
  "cwd (snd (makedirs name m ok s)) = cwd s \<and> umask (snd (makedirs name m ok s)) = umask s"
  by (rule makedirs_keeps [where P = "\<lambda>s'. cwd s' = cwd s \<and> umask s' = umask s" and Q = "\<lambda>m. True"])
     (auto dest: sys_mkdir_proc)


lemma sys_stat_resolve:
  "wf_fs s \<Longrightarrow> resolve s p = Inr l \<Longrightarrow> sys_stat s p = Inr (the (tree s l))"
  using resolve_exists by (fastforce simp: sys_stat_def)

lemma path_exists_iff: "wf_fs s \<Longrightarrow> path_exists s p \<longleftrightarrow> (\<exists>l. resolve s p = Inr l)"
  using resolve_exists by (fastforce simp: path_exists_def sys_stat_def split: sum.splits option.splits)

lemma path_isdir_iff: "path_isdir s p \<longleftrightarrow> (\<exists>l. resolve s p = Inr l \<and> is_dir (tree s) l)"
  by (auto simp: path_isdir_def sys_stat_def is_dir_Some split: sum.splits option.splits)

text \<open>How the split of \<open>os.makedirs\<close> reads as components.\<close>

lemma makedirs_split_comps:
  assumes "makedirs_split name = (h, t)" and "t \<noteq> []"
  shows "path_comps name = path_comps h @ [t] \<and>
    (h \<noteq> [] \<longrightarrow> startswith_sep h = startswith_sep name) \<and>
    (h = [] \<longrightarrow> \<not> startswith_sep name)"
proof -
  obtain h0 t0 where p0: "psplit name = (h0, t0)" by fastforce
  have tl: "path_comps t = [t] \<and> \<not> startswith_sep t" if "psplit q = (h, t)" for q
    using that assms(2) after_last_sep_comps [of q] by (auto elim: psplit_parts)
  show ?thesis
  proof (cases "t0 = []")
    case True
    with p0 assms(1) have p1: "psplit h0 = (h, t)" by (simp add: makedirs_split_def)
    have "h0 \<noteq> []" using p1 assms(2) by (auto simp: psplit_def after_last_sep_def)
    then have s0: "startswith_sep h0 = startswith_sep name" using p0 True psplit_no_tail(3) by blast
    have c0: "path_comps h0 = path_comps name" using p0 True psplit_no_tail(1) by blast
    show ?thesis using psplit_comps [OF p1 assms(2)] c0 s0 tl [OF p1] by auto
  next
    case False
    with p0 assms(1) have p1: "psplit name = (h, t)" by (simp add: makedirs_split_def)
    show ?thesis using psplit_comps [OF p1 assms(2)] tl [OF p1] by auto
  qed
qed
lemma makedirs_split_tail:
  assumes "makedirs_split name = (h, t)" and "path_comps name \<noteq> []"
  shows "t \<noteq> []"
proof
  assume t: "t = []"
  obtain h0 t0 where p0: "psplit name = (h0, t0)" by fastforce
  show False
  proof (cases "t0 = []")
    case False
    then show False using p0 assms(1) t by (simp add: makedirs_split_def)
  next
    case True
    with p0 assms(1) t have p1: "psplit h0 = (h, [])" by (simp add: makedirs_split_def)
    have "path_comps h0 = path_comps name" using p0 True psplit_no_tail(1) by blast
    with assms(2) have c0: "path_comps h0 \<noteq> []" by simp
    then have ne: "\<not> endswith_sep h0" by (rule head_not_endswith [OF p0])
    have "h0 = [] \<or> endswith_sep h0" by (rule psplit_no_tail_shape [OF p1])
    then show False using ne c0 by auto
  qed
qed

lemma mkdir_exist_ok_existing:
  assumes "resolve_target s name = Inr (Existing l)"
  shows "mkdir_exist_ok name m ok s =
    (if ok \<and> is_dir (tree s) l then (Inr (), s) else (Inl (FileExistsError name), s))"
proof -
  have "sys_mkdir s name m = Inl EEXIST" using assms by (simp add: sys_mkdir_def)
  moreover have "path_isdir s name \<longleftrightarrow> is_dir (tree s) l"
    using assms by (auto simp: path_isdir_iff resolve_via_target)
  ultimately show ?thesis by (auto simp: mkdir_exist_ok_def os_mkdir_def)
qed

text \<open>A path whose last component exists needs no recursive call: its head
  resolves too.\<close>

lemma makedirs_existing:
  assumes "wf_fs s" and "resolve_target s name = Inr (Existing l)"
  shows "makedirs name m ok s = mkdir_exist_ok name m ok s"
proof -
  obtain h t where split: "makedirs_split name = (h, t)" by fastforce
  have "\<not> (h \<noteq> [] \<and> t \<noteq> [] \<and> \<not> path_exists s h)"
  proof
    assume c: "h \<noteq> [] \<and> t \<noteq> [] \<and> \<not> path_exists s h"
    then have comps: "path_comps name = path_comps h @ [t]"
      and st: "start_loc s h = start_loc s name"
      using makedirs_split_comps [OF split] by (auto simp: start_loc_def)
    have "name \<noteq> []" using assms(2) by (auto simp: resolve_target_def)
    then have "walk (tree s) (start_loc s name) (path_comps h @ [t]) = Inr l"
      using walk_via_target [of name s] assms(2) comps by simp
    then obtain d where w: "walk (tree s) (start_loc s h) (path_comps h) = Inr d"
      and wt: "walk (tree s) d [t] = Inr l"
      using st by (auto simp: walk_append split: sum.splits)
    from wt have "is_dir (tree s) d" by (rule walk_Cons_dir)
    then have "resolve s h = Inr d" using c w by (simp add: resolve_iff_walk)
    then show False using c path_exists_iff [OF assms(1)] by blast
  qed
  then show ?thesis by (rule makedirs_no_recursion [OF split])
qed

text \<open>C15: \<open>exist_ok\<close>.  \<open>os.makedirs\<close> with \<open>exist_ok=True\<close> on a path that
  resolves to an existing directory succeeds and changes nothing.\<close>

lemma makedirs_existing_dir:
  "wf_fs s \<Longrightarrow> resolve s name = Inr l \<Longrightarrow> is_dir (tree s) l \<Longrightarrow> makedirs name m True s = (Inr (), s)"
  by (simp add: makedirs_existing mkdir_exist_ok_existing resolve_Inr_target)

lemma makedirs_existing_file:
  "wf_fs s \<Longrightarrow> resolve_target s name = Inr (Existing l) \<Longrightarrow> is_nondir (tree s) l \<Longrightarrow>
   makedirs name m ok s = (Inl (FileExistsError name), s)"
proof -
  assume a: "wf_fs s" "resolve_target s name = Inr (Existing l)" "is_nondir (tree s) l"
  then have "\<not> is_dir (tree s) l"
    by (auto simp: is_nondir_def is_dir_def split: option.splits inode.splits)
  with a show ?thesis by (simp add: makedirs_existing mkdir_exist_ok_existing)
qed

subsection \<open>Creating the missing directories\<close>


lemma no_file_on_iff:
  "no_file_on t st cs \<longleftrightarrow> (\<forall>k\<le>length cs. \<not> is_nondir t (st @ take k cs))"
proof (induction cs arbitrary: st)
  case Nil
  then show ?case by simp
next
  case (Cons c cs)
  have "(\<forall>k\<le>length (c # cs). \<not> is_nondir t (st @ take k (c # cs))) \<longleftrightarrow>
        \<not> is_nondir t st \<and> (\<forall>k\<le>length cs. \<not> is_nondir t ((st @ [c]) @ take k cs))"
    (is "?L \<longleftrightarrow> ?R")
  proof
    assume L: ?L
    show ?R
    proof
      show "\<not> is_nondir t st" using L [rule_format, of 0] by simp
      show "\<forall>k\<le>length cs. \<not> is_nondir t ((st @ [c]) @ take k cs)"
        using L [rule_format, of "Suc k" for k] by simp
    qed
  next
    assume R: ?R
    show ?L
    proof (intro allI impI)
      fix k assume "k \<le> length (c # cs)"
      then show "\<not> is_nondir t (st @ take k (c # cs))"
        using R by (cases k) auto
    qed
  qed
  with Cons show ?case by simp
qed

lemma add_dirs_append:
  "add_dirs t st (xs @ ys) m = add_dirs (add_dirs t st xs m) (st @ xs) ys m"
  by (induction xs arbitrary: t st) simp_all

lemma add_dirs_apply:
  "add_dirs t st xs m l =
     (if t l = None \<and> (\<exists>k. 0 < k \<and> k \<le> length xs \<and> l = st @ take k xs) then Some (Dir m) else t l)"
proof (induction xs arbitrary: t st)
  case Nil
  then show ?case by simp
next
  case (Cons c xs)
  define t' where "t' = (if t (st @ [c]) = None then t(st @ [c] \<mapsto> Dir m) else t)"
  have ex: "(\<exists>k. 0 < k \<and> k \<le> length (c # xs) \<and> l = st @ take k (c # xs)) \<longleftrightarrow>
      l = st @ [c] \<or> (\<exists>k. 0 < k \<and> k \<le> length xs \<and> l = (st @ [c]) @ take k xs)"
  proof
    assume "\<exists>k. 0 < k \<and> k \<le> length (c # xs) \<and> l = st @ take k (c # xs)"
    then obtain k where k: "0 < k" "k \<le> Suc (length xs)" "l = st @ take k (c # xs)" by auto
    show "l = st @ [c] \<or> (\<exists>k. 0 < k \<and> k \<le> length xs \<and> l = (st @ [c]) @ take k xs)"
    proof (cases "k = 1")
      case True
      then show ?thesis using k by simp
    next
      case False
      then have "0 < k - 1" "k - 1 \<le> length xs" "l = (st @ [c]) @ take (k - 1) xs"
        using k by (auto simp: take_Cons')
      then show ?thesis by blast
    qed
  next
    assume "l = st @ [c] \<or> (\<exists>k. 0 < k \<and> k \<le> length xs \<and> l = (st @ [c]) @ take k xs)"
    then show "\<exists>k. 0 < k \<and> k \<le> length (c # xs) \<and> l = st @ take k (c # xs)"
    proof
      assume "l = st @ [c]"
      then show ?thesis by (intro exI [of _ 1]) simp
    next
      assume "\<exists>k. 0 < k \<and> k \<le> length xs \<and> l = (st @ [c]) @ take k xs"
      then obtain k where "0 < k" "k \<le> length xs" "l = (st @ [c]) @ take k xs" by blast
      then show ?thesis by (intro exI [of _ "Suc k"]) simp
    qed
  qed
  have "add_dirs t st (c # xs) m l = add_dirs t' (st @ [c]) xs m l" by (simp add: t'_def)
  also have "\<dots> = (if t' l = None \<and> (\<exists>k. 0 < k \<and> k \<le> length xs \<and> l = (st @ [c]) @ take k xs)
                   then Some (Dir m) else t' l)" by (rule Cons.IH)
  also have "\<dots> = (if t l = None \<and> (\<exists>k. 0 < k \<and> k \<le> length (c # xs) \<and> l = st @ take k (c # xs))
                   then Some (Dir m) else t l)"
    unfolding ex by (auto simp: t'_def)
  finally show ?case .
qed

lemma add_dirs_id:
  "(\<forall>k. 0 < k \<longrightarrow> k \<le> length xs \<longrightarrow> t (st @ take k xs) \<noteq> None) \<Longrightarrow> add_dirs t st xs m = t"
  by (rule ext) (auto simp: add_dirs_apply)

text \<open>The last step of \<open>os.makedirs\<close>: \<open>mkdir\<close> of a simple name in a directory
  that the process may write, with \<open>exist_ok\<close>, creates it or leaves an existing
  directory alone.\<close>

lemma mkdir_exist_ok_leaf:
  assumes wf: "wf_fs s" and ok: "perm_ok s"
    and p: "p \<noteq> []" "path_comps p = cs @ [c]" and c: "c \<noteq> ''.''" "c \<noteq> ''..''"
    and w: "walk (tree s) (start_loc s p) cs = Inr d" and d: "is_dir (tree s) d"
    and nf: "\<not> is_nondir (tree s) (d @ [c])"
  shows "mkdir_exist_ok p 511 True s =
    (Inr (), s\<lparr>tree := if tree s (d @ [c]) = None
                       then (tree s)(d @ [c] \<mapsto> Dir (511 AND NOT (umask s) AND 1023)) else tree s\<rparr>)"
proof -
  obtain m where dm: "tree s d = Some (Dir m)"
    using d by (auto simp: is_dir_def split: option.splits inode.splits)
  then have rwx: "can_read m" "can_write m" "can_exec m"
    using ok by (auto simp: perm_ok_def ran_def)
  have rt: "resolve_target s p = lookup_last (tree s) d c" by (rule resolve_target_snoc [OF p w])
  show ?thesis
  proof (cases "tree s (d @ [c]) = None")
    case True
    then have "resolve_target s p = Inr (Absent (d @ [c]))"
      using rt dm rwx c by (simp add: lookup_last_def)
    then have "sys_mkdir s p 511 = Inr (s\<lparr>tree := (tree s)(d @ [c] \<mapsto> Dir (511 AND NOT (umask s) AND 1023))\<rparr>)"
      using dm rwx by (simp add: sys_mkdir_def)
    then show ?thesis using True by (simp add: mkdir_exist_ok_def os_mkdir_def)
  next
    case False
    then have "resolve_target s p = Inr (Existing (d @ [c]))"
      using rt dm rwx c by (auto simp: lookup_last_def)
    moreover have "is_dir (tree s) (d @ [c])" using False nf by (rule exists_not_file_is_dir)
    ultimately have "mkdir_exist_ok p 511 True s = (Inr (), s)"
      using mkdir_exist_ok_existing by simp
    then show ?thesis by (subst if_not_P [OF False]) simp
  qed
qed


lemma add_dirs_beyond:
  "length st + length xs < length l \<Longrightarrow> add_dirs t st xs m l = t l"
  by (auto simp: add_dirs_apply)

lemma add_dirs_is_dir:
  assumes "no_file_on t st xs" and "is_dir t st" and "k \<le> length xs"
  shows "is_dir (add_dirs t st xs m) (st @ take k xs)"
proof (cases "k = 0")
  case True
  then show ?thesis using assms(2) by (simp add: is_dir_def add_dirs_apply)
next
  case False
  have nf: "\<not> is_nondir t (st @ take k xs)" using assms(1,3) by (simp add: no_file_on_iff)
  show ?thesis
  proof (cases "t (st @ take k xs) = None")
    case True
    then show ?thesis using False assms(3) by (auto simp: add_dirs_apply is_dir_def)
  next
    case False
    then have "is_dir t (st @ take k xs)" using nf by (rule exists_not_file_is_dir)
    with False show ?thesis by (simp add: add_dirs_apply is_dir_def)
  qed
qed

text \<open>After \<open>add_dirs\<close>, the kernel walks the whole list of names.\<close>

lemma add_dirs_walk:
  assumes "perm_ok s1" and "tree s1 = add_dirs t st xs m"
    and "plain_comps xs" and "no_file_on t st xs" and "is_dir t st"
  shows "walk (tree s1) st xs = Inr (st @ xs)"
proof (rule walk_plain_ok)
  show "plain_comps xs" by (rule assms(3))
  have d: "is_dir (tree s1) (st @ take k xs)" if "k \<le> length xs" for k
    using add_dirs_is_dir [OF assms(4,5) that] assms(2) by simp
  show "\<forall>k<length xs. \<exists>m. tree s1 (st @ take k xs) = Some (Dir m) \<and> can_exec m"
    using d perm_ok_dir_exec [OF assms(1)] by simp
  show "xs \<noteq> [] \<longrightarrow> tree s1 (st @ xs) \<noteq> None"
    using d [of "length xs"] by (auto simp: is_dir_def split: option.splits)
qed


text \<open>\<open>os.makedirs(name, exist_ok=True)\<close> on a path of plain names, with no
  regular file on the way, creates exactly the missing directories on the way.\<close>

lemma makedirs_creates:
  assumes wf: "wf_fs s" and ok: "perm_ok s" "umask_ok s"
    and p: "name \<noteq> []" "path_comps name \<noteq> []" "plain_comps (path_comps name)"
    and nf: "no_file_on (tree s) (start_loc s name) (path_comps name)"
  shows "makedirs name 511 True s =
    (Inr (), s\<lparr>tree := add_dirs (tree s) (start_loc s name) (path_comps name)
                                (511 AND NOT (umask s) AND 1023)\<rparr>)"
  using p nf
proof (induction "length name" arbitrary: name rule: less_induct)
  case less
  define st cs dm where "st = start_loc s name" and "cs = path_comps name"
    and "dm = (511 AND NOT (umask s) AND 1023 :: mode)"
  obtain h t where split: "makedirs_split name = (h, t)" by fastforce
  have tne: "t \<noteq> []" using makedirs_split_tail [OF split less.prems(2)] .
  have cs: "cs = path_comps h @ [t]"
    and sh: "h \<noteq> [] \<Longrightarrow> start_loc s h = st" and h0: "h = [] \<Longrightarrow> st = cwd s"
    using makedirs_split_comps [OF split tne] by (auto simp: cs_def st_def start_loc_def)
  have pt: "t \<noteq> ''.''" "t \<noteq> ''..''" and ph: "plain_comps (path_comps h)"
    using less.prems(3) cs by (auto simp: plain_comps_def cs_def)
  have nfa: "\<not> is_nondir (tree s) (st @ take k cs)" if "k \<le> length cs" for k
    using less.prems(4) that by (simp add: no_file_on_iff st_def cs_def)
  have nft: "\<not> is_nondir (tree s) (st @ path_comps h @ [t])" using nfa [of "length cs"] cs by simp
  have std: "is_dir (tree s) st" unfolding st_def by (rule start_loc_dir [OF wf])
  consider (top) "h = []" | (exists) "h \<noteq> []" "path_exists s h" | (missing) "h \<noteq> []" "\<not> path_exists s h"
    by blast
  then show ?case
  proof cases
    case top
    have "makedirs name 511 True s = mkdir_exist_ok name 511 True s"
      using top by (intro makedirs_no_recursion [OF split]) simp
    also have "\<dots> = (Inr (), s\<lparr>tree := if tree s (st @ [t]) = None
                       then (tree s)(st @ [t] \<mapsto> Dir dm) else tree s\<rparr>)"
      using mkdir_exist_ok_leaf [OF wf ok(1) less.prems(1), of "[]" t st] cs top pt std nft
      by (simp add: st_def cs_def dm_def)
    finally show ?thesis using cs top by (simp add: st_def cs_def dm_def)
  next
    case exists
    then obtain d where r: "resolve s h = Inr d" using path_exists_iff [OF wf] by blast
    then have w: "walk (tree s) st (path_comps h) = Inr d"
      using exists sh resolve_walk by fastforce
    then have d: "d = st @ path_comps h" using ph walk_plain by blast
    have dd: "is_dir (tree s) d"
      using resolve_exists [OF wf r] nfa [of "length (path_comps h)"] cs d
      by (intro exists_not_file_is_dir) simp_all
    have id: "add_dirs (tree s) st (path_comps h) dm = tree s"
      using walk_plain_prefixes [OF ph w] by (intro add_dirs_id) blast
    have "makedirs name 511 True s = mkdir_exist_ok name 511 True s"
      using exists by (intro makedirs_no_recursion [OF split]) simp
    also have "\<dots> = (Inr (), s\<lparr>tree := if tree s (d @ [t]) = None
                       then (tree s)(d @ [t] \<mapsto> Dir dm) else tree s\<rparr>)"
      using mkdir_exist_ok_leaf [OF wf ok(1) less.prems(1) _ pt w [unfolded st_def] dd] cs nft d
      by (simp add: st_def cs_def dm_def)
    finally show ?thesis using cs d id by (simp add: add_dirs_append st_def cs_def dm_def)
  next
    case missing
    have hne: "path_comps h \<noteq> []"
    proof
      assume "path_comps h = []"
      then have "resolve s h = Inr st" using missing sh std by (simp add: resolve_iff_walk)
      then show False using missing path_exists_iff [OF wf] by blast
    qed
    have shorter: "length h < length name" by (rule makedirs_split_shorter [OF split tne])
    have nfh: "no_file_on (tree s) (start_loc s h) (path_comps h)"
      unfolding no_file_on_iff
    proof (intro allI impI)
      fix k assume k: "k \<le> length (path_comps h)"
      then have "take k cs = take k (path_comps h)" using cs by simp
      then show "\<not> is_nondir (tree s) (start_loc s h @ take k (path_comps h))"
        using nfa [of k] k cs sh missing by simp
    qed
    define s1 where "s1 = s\<lparr>tree := add_dirs (tree s) st (path_comps h) dm\<rparr>"
    have rec: "makedirs h 511 True s = (Inr (), s1)"
      using less.hyps [OF shorter missing(1) hne ph nfh] sh missing by (simp add: s1_def dm_def)
    have wf1: "wf_fs s1" and ok1: "perm_ok s1"
      using makedirs_wf [OF wf, of h 511 True] makedirs_perm [OF ok, of 511 h True] rec
      by (simp_all add: owner_rwx_def)
    have w1: "walk (tree s1) st (path_comps h) = Inr (st @ path_comps h)"
      using add_dirs_walk [OF ok1 _ ph _ std] nfh missing sh by (simp add: s1_def)
    have d1: "is_dir (tree s1) (st @ path_comps h)"
      using add_dirs_is_dir [OF _ std order_refl] nfh missing sh by (simp add: s1_def)
    have same: "tree s1 (st @ path_comps h @ [t]) = tree s (st @ path_comps h @ [t])"
      by (simp add: s1_def add_dirs_beyond)
    have m1: "makedirs name 511 True s = mkdir_exist_ok name 511 True s1"
      using makedirs_recursion [OF split _ rec] missing pt tne by simp
    have st1: "start_loc s1 name = st" by (simp add: s1_def st_def start_loc_def)
    have cs': "path_comps name = path_comps h @ [t]" using cs by (simp add: cs_def)
    have nft1: "\<not> is_nondir (tree s1) (st @ path_comps h @ [t])"
      using nft same by (simp add: is_nondir_def)
    have um: "umask s1 = umask s" by (simp add: s1_def)
    have leaf: "mkdir_exist_ok name 511 True s1 = (Inr (), s1\<lparr>tree := if tree s1 (st @ path_comps h @ [t]) = None
                       then (tree s1)(st @ path_comps h @ [t] \<mapsto> Dir (511 AND NOT (umask s1) AND 1023))
                       else tree s1\<rparr>)"
      using mkdir_exist_ok_leaf [OF wf1 ok1 less.prems(1) cs' pt _ d1] w1 st1 nft1 by simp
    show ?thesis using m1 leaf cs um by (simp add: add_dirs_append s1_def st_def cs_def dm_def)
  qed
qed

text \<open>\<open>os.makedirs\<close> changes no existing directory.\<close>

lemma makedirs_keeps_dir:
  "tree s x = Some (Dir d) \<Longrightarrow> tree (snd (makedirs name m ok s)) x = Some (Dir d)"
  by (rule makedirs_keeps [where Q = "\<lambda>m. True"]) (auto intro: sys_mkdir_keeps_dir)

text \<open>\<open>os.makedirs('')\<close>: the split of the empty path is empty, so the call
  goes straight to \<open>mkdir('')\<close>, which fails with \<open>ENOENT\<close>; \<open>''\<close> is no
  directory, so the error is raised whatever \<open>exist_ok\<close> is.\<close>

lemma makedirs_empty: "makedirs '''' m ok s = (Inl (FileNotFoundError ''''), s)"
  by (subst makedirs.simps)
     (simp add: makedirs_split_def psplit_def mkdir_exist_ok_def os_mkdir_def sys_mkdir_def
      resolve_target_def oserror_def path_isdir_def sys_stat_def resolve_def)

end
