(* ===== verification/CopyLoops.thy ===== *)
theory CopyLoops
  imports Posix
begin

text \<open>
  The loops that move the bytes of a file in \<open>shutil.copyfile\<close> (CPython 3.12,
  \<open>Lib/shutil.py\<close>).  On Linux \<open>copyfile\<close> calls \<open>_fastcopy_sendfile\<close>, which
  calls \<open>os.sendfile(outfd, infd, offset, blocksize)\<close> until it returns 0, with
  \<open>blocksize = max(st_size, 2 ** 23)\<close>; the kernel moves at most
  \<open>0x7ffff000\<close> bytes per call (\<open>MAX_RW_COUNT\<close>).  When the fast path gives up,
  \<open>copyfileobj\<close> reads chunks of \<open>length\<close> bytes (\<open>COPY_BUFSIZE = 64 KiB\<close> when
  \<open>length\<close> is 0) and writes each, until a read returns nothing.  Each loop is
  a recursive function whose result is the list of chunks written, in order;
  the \<open>sendfile\<close> loop is also a state machine (\<open>sendfile_step\<close>) over the
  offset and the chunks written, whose runs all reach the end of the file.
\<close>

definition sendfile_max :: nat where
  "sendfile_max = 2147479552"

text \<open>\<open>os.sendfile(outfd, infd, offset, count)\<close> on a regular input file: the
  bytes sent, from \<open>offset\<close>, at most \<open>count\<close> and at most \<open>MAX_RW_COUNT\<close>.\<close>

definition os_sendfile :: "bytes \<Rightarrow> nat \<Rightarrow> nat \<Rightarrow> bytes" where
  "os_sendfile data offset count = take (min count sendfile_max) (drop offset data)"

function sendfile_loop :: "bytes \<Rightarrow> nat \<Rightarrow> nat \<Rightarrow> bytes list" where
  "sendfile_loop data blocksize offset =
     (let sent = os_sendfile data offset blocksize
      in if sent = [] then [] else sent # sendfile_loop data blocksize (offset + length sent))"
  by pat_completeness auto
termination
  by (relation "measure (\<lambda>(data, blocksize, offset). length data - offset)")
     (auto simp: os_sendfile_def Let_def)

definition fastcopy_blocksize :: "bytes \<Rightarrow> nat" where
  "fastcopy_blocksize data = max (length data) (2 ^ 23)"

definition fastcopy_sendfile :: "bytes \<Rightarrow> bytes list" where
  "fastcopy_sendfile data = sendfile_loop data (fastcopy_blocksize data) 0"

definition copy_bufsize :: nat where
  "copy_bufsize = 65536"

text \<open>\<open>while buf := fsrc_read(length): fdst_write(buf)\<close>, with the rest of the
  file as the reader's state.\<close>

function read_loop :: "nat \<Rightarrow> bytes \<Rightarrow> bytes list" where
  "read_loop len rest =
     (let buf = take len rest in if buf = [] then [] else buf # read_loop len (drop len rest))"
  by pat_completeness auto
termination
  by (relation "measure (\<lambda>(len, rest). size rest)") (auto simp: Let_def)

definition copyfileobj :: "nat \<Rightarrow> bytes \<Rightarrow> bytes list" where
  "copyfileobj len data = read_loop (if len = 0 then copy_bufsize else len) data"

text \<open>One turn of the \<open>sendfile\<close> loop as a step of a state machine: the
  state is the offset reached and the chunks written so far; a call that moves
  bytes advances the offset by them, a call that returns 0 leaves no step.\<close>

inductive sendfile_step :: "bytes \<Rightarrow> nat \<Rightarrow> nat \<times> bytes list \<Rightarrow> nat \<times> bytes list \<Rightarrow> bool"
  for data :: bytes and blocksize :: nat where
  sent: "os_sendfile data offset blocksize \<noteq> [] \<Longrightarrow>
    sendfile_step data blocksize (offset, out)
      (offset + length (os_sendfile data offset blocksize), out @ [os_sendfile data offset blocksize])"

declare sendfile_loop.simps [simp del] read_loop.simps [simp del]

subsection \<open>The loops as chunks of the data\<close>

lemma drop_length_take: "drop (length (take k xs)) xs = drop k xs"
  by (simp add: min_def)

lemma read_loop_concat: "0 < n \<Longrightarrow> concat (read_loop n rest) = rest"
proof (induction n rest rule: read_loop.induct)
  case (1 n rest)
  then show ?case
    by (subst read_loop.simps) (auto simp: Let_def)
qed

lemma ceil_div_step:
  assumes "0 < n" "0 < L"
  shows "Suc ((L - n + n - 1) div n) = (L + n - 1) div n"
proof -
  have "(L - n + n - 1) div n = (L - 1) div n"
  proof (cases "L \<le> n")
    case True
    then have "L - n + n - 1 < n" "L - 1 < n" using assms by linarith+
    then show ?thesis by (simp only: div_less)
  next
    case False
    then have "L - n + n - 1 = L - 1" by linarith
    then show ?thesis by (simp only:)
  qed
  moreover have "L + n - 1 = (L - 1) + n" using assms by linarith
  ultimately show ?thesis using assms by (simp only: div_add_self2)
qed

lemma read_loop_length: "0 < n \<Longrightarrow> length (read_loop n rest) = (length rest + n - 1) div n"
proof (induction n rest rule: read_loop.induct)
  case (1 n rest)
  show ?case
  proof (cases "rest = []")
    case True
    then show ?thesis using "1.prems" by (subst read_loop.simps) simp
  next
    case False
    then have ih: "length (read_loop n (drop n rest)) = (length rest - n + n - 1) div n"
      using "1" by (simp add: Let_def)
    have "Suc ((length rest - n + n - 1) div n) = (length rest + n - 1) div n"
      using ceil_div_step [OF "1.prems", of "length rest"] False by simp
    then show ?thesis using ih False "1.prems" by (subst read_loop.simps) (simp add: Let_def)
  qed
qed

text \<open>The \<open>sendfile\<close> loop moves the data in chunks of
  \<open>min blocksize MAX_RW_COUNT\<close> bytes from the offset: it is the read loop with
  that chunk size.\<close>

lemma sendfile_loop_read_loop:
  "0 < bs \<Longrightarrow> sendfile_loop data bs off = read_loop (min bs sendfile_max) (drop off data)"
proof (induction data bs off rule: sendfile_loop.induct)
  case (1 data bs off)
  have k: "0 < min bs sendfile_max" using "1.prems" by (simp add: sendfile_max_def)
  have "drop (off + length (take (min bs sendfile_max) (drop off data))) data =
        drop (length (take (min bs sendfile_max) (drop off data))) (drop off data)"
    by (simp only: drop_drop add.commute)
  also have "\<dots> = drop (min bs sendfile_max) (drop off data)" by (rule drop_length_take)
  finally have dr: "drop (off + length (take (min bs sendfile_max) (drop off data))) data =
        drop (min bs sendfile_max) (drop off data)" .
  define k where "k = min bs sendfile_max"
  define sent where "sent = take k (drop off data)"
  have os: "os_sendfile data off bs = sent" by (simp add: os_sendfile_def sent_def k_def)
  show ?case
  proof (cases "drop off data = []")
    case True
    then show ?thesis using os by (subst sendfile_loop.simps, subst read_loop.simps) (simp add: sent_def k_def)
  next
    case False
    then have ne: "sent \<noteq> []" using k by (simp add: sent_def k_def)
    have "sendfile_loop data bs (off + length sent) = read_loop k (drop k (drop off data))"
      using "1.IH" [OF refl] os ne "1.prems" dr by (simp add: sent_def k_def)
    then show ?thesis using os ne
      by (subst sendfile_loop.simps, subst read_loop.simps) (simp add: Let_def sent_def k_def)
  qed
qed

text \<open>Equations by which the loops evaluate.\<close>

lemma read_loop_code [code]:
  "read_loop len [] = []"
  "read_loop len (x # xs) =
     (if len = 0 then [] else take len (x # xs) # read_loop len (drop len (x # xs)))"
  by (subst read_loop.simps, simp)+

lemma sendfile_loop_code [code]:
  "sendfile_loop data bs off =
     (if bs = 0 then [] else read_loop (min bs sendfile_max) (drop off data))"
proof (cases "bs = 0")
  case True
  then show ?thesis by (subst sendfile_loop.simps) (simp add: os_sendfile_def)
next
  case False
  then show ?thesis by (simp add: sendfile_loop_read_loop)
qed

lemma fastcopy_read_loop:
  "fastcopy_sendfile data = read_loop (min (fastcopy_blocksize data) sendfile_max) data"
  using sendfile_loop_read_loop [of "fastcopy_blocksize data" data 0]
  by (simp add: fastcopy_sendfile_def fastcopy_blocksize_def)

lemma fastcopy_concat: "concat (fastcopy_sendfile data) = data"
  using read_loop_concat [of "min (fastcopy_blocksize data) sendfile_max" data]
  by (simp add: fastcopy_read_loop fastcopy_blocksize_def sendfile_max_def)

lemma copyfileobj_concat: "concat (copyfileobj len data) = data"
  by (simp add: copyfileobj_def copy_bufsize_def read_loop_concat)

lemma ceil_div_one: "0 < L \<Longrightarrow> L \<le> k \<Longrightarrow> (L + k - 1) div k = (1::nat)"
proof -
  assume L: "0 < L" and k: "L \<le> k"
  have "L + k - 1 = (L - 1) + k" using L by arith
  moreover have "(L - 1) div k = 0" using L k by (simp add: div_less)
  ultimately show ?thesis using L k by (simp only: div_add_self2)
qed

subsection \<open>Properties of the loops\<close>

text \<open>C17: the \<open>sendfile\<close> loop that \<open>shutil.copyfile\<close> runs on Linux writes
  exactly the chunks that \<open>copyfileobj\<close> writes with a buffer of
  \<open>min(blocksize, MAX_RW_COUNT)\<close> bytes, and whatever buffer length
  \<open>copyfileobj\<close> is given, both loops write the same bytes: the fast path and
  its fallback are interchangeable.\<close>

theorem fastcopy_copyfileobj_agree:
  "fastcopy_sendfile data = copyfileobj (min (fastcopy_blocksize data) sendfile_max) data \<and>
   concat (fastcopy_sendfile data) = concat (copyfileobj len data)"
proof
  have "min (fastcopy_blocksize data) sendfile_max \<noteq> 0"
    by (simp add: fastcopy_blocksize_def sendfile_max_def)
  then show "fastcopy_sendfile data = copyfileobj (min (fastcopy_blocksize data) sendfile_max) data"
    by (simp only: copyfileobj_def fastcopy_read_loop if_False)
  show "concat (fastcopy_sendfile data) = concat (copyfileobj len data)"
    by (simp only: fastcopy_concat copyfileobj_concat)
qed

text \<open>C18: the \<open>sendfile\<close> loop ends, after one call per \<open>MAX_RW_COUNT\<close> bytes of
  the file, rounded up (and a last call that returns 0): a file of at most
  \<open>0x7ffff000\<close> bytes is sent in one chunk, an empty one in none.\<close>

theorem fastcopy_sendfile_calls:
  "length (fastcopy_sendfile data) = (length data + sendfile_max - 1) div sendfile_max"
proof -
  define L where "L = length data"
  define k where "k = min (fastcopy_blocksize data) sendfile_max"
  have k0: "0 < k" by (simp add: k_def fastcopy_blocksize_def sendfile_max_def)
  have len: "length (fastcopy_sendfile data) = (L + k - 1) div k"
    using read_loop_length [OF k0, of data] by (simp add: fastcopy_read_loop k_def L_def)
  show ?thesis
  proof (cases "L \<le> sendfile_max")
    case True
    then have "L \<le> k" by (simp add: k_def fastcopy_blocksize_def L_def)
    show ?thesis
    proof (cases "L = 0")
      case True
      then show ?thesis using len k0 by (simp add: L_def sendfile_max_def)
    next
      case False
      then show ?thesis
        using len ceil_div_one [OF _ \<open>L \<le> k\<close>] ceil_div_one [OF _ \<open>L \<le> sendfile_max\<close>]
        by (simp add: L_def)
    qed
  next
    case False
    then have "k = sendfile_max" by (simp add: k_def fastcopy_blocksize_def L_def)
    then show ?thesis using len by (simp add: L_def)
  qed
qed

subsection \<open>The loop as a state machine\<close>

inductive_cases sendfile_step_from: "sendfile_step data bs (off, out) t"

lemma os_sendfile_Nil: "0 < bs \<Longrightarrow> os_sendfile data off bs = [] \<longleftrightarrow> length data \<le> off"
  by (auto simp: os_sendfile_def sendfile_max_def min_def)

text \<open>From any offset within the data, the steps reach the end of the data
  with the chunks the loop function returns appended.\<close>

lemma sendfile_steps_to_eof:
  "0 < bs \<Longrightarrow> off \<le> length data \<Longrightarrow>
   (sendfile_step data bs)\<^sup>*\<^sup>* (off, out) (length data, out @ sendfile_loop data bs off)"
proof (induction data bs off arbitrary: out rule: sendfile_loop.induct)
  case (1 data bs off)
  define sent where "sent = os_sendfile data off bs"
  show ?case
  proof (cases "sent = []")
    case True
    then have "off = length data" using "1.prems" os_sendfile_Nil [of bs data off] by (simp add: sent_def)
    moreover have "sendfile_loop data bs off = []"
      using True by (subst sendfile_loop.simps) (simp add: sent_def Let_def)
    ultimately show ?thesis by simp
  next
    case False
    have le: "off + length sent \<le> length data"
      using "1.prems"(2) by (simp add: sent_def os_sendfile_def)
    have loop: "sendfile_loop data bs off = sent # sendfile_loop data bs (off + length sent)"
      using False by (subst sendfile_loop.simps) (simp add: sent_def Let_def)
    have "sendfile_step data bs (off, out) (off + length sent, out @ [sent])"
      using False sendfile_step.sent [of data off bs out] by (simp add: sent_def)
    moreover have "(sendfile_step data bs)\<^sup>*\<^sup>* (off + length sent, out @ [sent])
        (length data, (out @ [sent]) @ sendfile_loop data bs (off + length sent))"
      using "1.IH" [OF refl, of "out @ [sent]"] "1.prems"(1) le False by (simp add: sent_def)
    ultimately show ?thesis using loop by (simp add: converse_rtranclp_into_rtranclp)
  qed
qed

text \<open>C26: the copy reaches the end of the file.  Run as a state machine from
  offset 0 with nothing written, the \<open>sendfile\<close> loop of \<open>shutil.copyfile\<close>
  always reaches the state whose offset is the size of the file and whose
  chunks are those of \<open>fastcopy_sendfile\<close>, and there it stops: no call moves
  any more bytes.\<close>

theorem sendfile_reaches_eof:
  "(sendfile_step data (fastcopy_blocksize data))\<^sup>*\<^sup>* (0, []) (length data, fastcopy_sendfile data) \<and>
   (\<forall>t. \<not> sendfile_step data (fastcopy_blocksize data) (length data, fastcopy_sendfile data) t)"
proof
  have "0 < fastcopy_blocksize data" by (simp add: fastcopy_blocksize_def)
  then show "(sendfile_step data (fastcopy_blocksize data))\<^sup>*\<^sup>* (0, []) (length data, fastcopy_sendfile data)"
    using sendfile_steps_to_eof [of "fastcopy_blocksize data" 0 data "[]"]
    by (simp add: fastcopy_sendfile_def)
  show "\<forall>t. \<not> sendfile_step data (fastcopy_blocksize data) (length data, fastcopy_sendfile data) t"
    by (auto elim: sendfile_step_from simp: os_sendfile_def)
qed

end
