(* ===== verification/Shutil.thy ===== *)
theory Shutil
  imports PyOs CopyLoops
begin

text \<open>
  \<open>shutil.copy(src, dst)\<close>, which lines 6 and 9 of \<open>src/install_bindist.py\<close>
  call, as CPython's \<open>Lib/shutil.py\<close> writes it on Linux with the default
  \<open>follow_symlinks=True\<close>:
  \<^item> \<open>copy\<close>: when \<open>dst\<close> is a directory, the target becomes
    \<open>os.path.join(dst, os.path.basename(src))\<close>; then \<open>copyfile\<close> and
    \<open>copymode\<close>, and the target is returned;
  \<^item> \<open>copyfile\<close>: \<open>SameFileError\<close> when both paths name the same inode;
    \<open>SpecialFileError\<close> when \<open>src\<close>, then \<open>dst\<close>, is a named pipe; then
    \<open>open(src, 'rb')\<close>, \<open>open(dst, 'wb')\<close> and the \<open>sendfile\<close> loop of
    \<open>_fastcopy_sendfile\<close> (theory \<open>CopyLoops\<close>), whose chunks are appended to
    the opened target; an \<open>IsADirectoryError\<close> on \<open>dst\<close> becomes
    \<open>FileNotFoundError('Directory does not exist: dst')\<close> when \<open>dst\<close> does
    not exist;
  \<^item> \<open>copymode\<close>: \<open>os.chmod(dst, stat.S_IMODE(os.stat(src).st_mode))\<close>.
  Under the working permissions there is no named pipe, so the check of
  \<open>copyfile\<close> passes (\<open>special_file_check_perm\<close>).  \<open>copyfile_oneshot\<close> proves the open and the chunked writes
  equal to one write of the source's bytes; the other lemmas use that form.  Without hard links, two
  paths name the same inode exactly when they resolve to the same location.
\<close>

unbundle bit_operations_syntax

text \<open>\<open>shutil._samefile\<close> through \<open>os.path.samefile\<close>: both \<open>stat\<close> calls
  succeed and name the same inode; an \<open>OSError\<close> reads as \<open>False\<close>.\<close>

definition samefile :: "fsys \<Rightarrow> string \<Rightarrow> string \<Rightarrow> bool" where
  "samefile s src dst =
     (case resolve s src of
        Inr a \<Rightarrow> (case resolve s dst of Inr b \<Rightarrow> a = b | Inl e \<Rightarrow> False)
      | Inl e \<Rightarrow> False)"

text \<open>The loop of \<open>copyfile\<close> over \<open>[src, dst]\<close>: \<open>os.stat\<close> of each, an
  \<open>OSError\<close> passed over, and \<open>SpecialFileError\<close> for the first that is a
  named pipe (\<open>stat.S_ISFIFO\<close>).\<close>

fun special_file_check :: "fsys \<Rightarrow> string list \<Rightarrow> pyexc option" where
  "special_file_check s [] = None"
| "special_file_check s (fn # fns) =
     (case sys_stat s fn of
        Inr (Fifo m) \<Rightarrow> Some (SpecialFileError fn)
      | _ \<Rightarrow> special_file_check s fns)"

definition copyfile :: "string \<Rightarrow> string \<Rightarrow> string pyio" where
  "copyfile src dst s =
     (if samefile s src dst then (Inl (SameFileError src dst), s)
      else
        (case special_file_check s [src, dst] of
           Some e \<Rightarrow> (Inl e, s)
         | None \<Rightarrow>
             (case sys_read s src of
                Inl e \<Rightarrow> (Inl (oserror e src), s)
              | Inr data \<Rightarrow>
                  (case sys_open_wb s dst of
                     Inr (s1, l) \<Rightarrow>
                       (Inr dst, foldl (\<lambda>s' chunk. sys_append s' l chunk) s1 (fastcopy_sendfile data))
                   | Inl e \<Rightarrow>
                       if e = EISDIR \<and> \<not> path_exists s dst then (Inl (DirectoryDoesNotExist dst), s)
                       else (Inl (oserror e dst), s)))))"

text \<open>\<open>stat.S_IMODE\<close>: the permission and special bits of a mode.\<close>

definition s_imode :: "mode \<Rightarrow> mode" where
  "s_imode m = m AND 4095"

definition copymode :: "string \<Rightarrow> string \<Rightarrow> unit pyio" where
  "copymode src dst =
     bindE (os_stat src) (\<lambda>st. os_chmod dst (s_imode (mode_of st)))"

definition shutil_copy :: "string \<Rightarrow> string \<Rightarrow> string pyio" where
  "shutil_copy src dst s =
     (let dst' = (if path_isdir s dst then pjoin dst (basename src) else dst)
      in bindE (copyfile src dst') (\<lambda>r. bindE (copymode src dst') (\<lambda>u. returnE dst')) s)"

subsection \<open>Behaviour of \<open>shutil.copy\<close>\<close>

text \<open>Opening the target and appending the chunks the \<open>sendfile\<close> loop moves
  is the one write of the source's bytes: the other lemmas of \<open>copyfile\<close> use
  this form.\<close>

lemma copyfile_oneshot:
  "copyfile src dst s =
     (if samefile s src dst then (Inl (SameFileError src dst), s)
      else
        (case special_file_check s [src, dst] of
           Some e \<Rightarrow> (Inl e, s)
         | None \<Rightarrow>
             (case sys_read s src of
                Inl e \<Rightarrow> (Inl (oserror e src), s)
              | Inr data \<Rightarrow>
                  (case sys_write s dst data of
                     Inr s' \<Rightarrow> (Inr dst, s')
                   | Inl e \<Rightarrow>
                       if e = EISDIR \<and> \<not> path_exists s dst then (Inl (DirectoryDoesNotExist dst), s)
                       else (Inl (oserror e dst), s)))))"
  by (simp add: copyfile_def sys_write_open_append [OF fastcopy_concat]
      split: sum.split prod.split option.split)

text \<open>Evaluation of \<open>copyfile\<close> uses the one-shot form.\<close>

declare copyfile_oneshot [code]

text \<open>Under the working permissions no path names a named pipe, so the check
  of \<open>copyfile\<close> passes.\<close>

lemma special_file_check_perm: "perm_ok s \<Longrightarrow> special_file_check s ps = None"
proof (induction ps)
  case Nil
  then show ?case by simp
next
  case (Cons p ps)
  have "sys_stat s p \<noteq> Inr (Fifo m)" for m
    using Cons.prems by (auto simp: sys_stat_def perm_ok_def ran_def split: sum.splits option.splits)
  then show ?case using Cons by (auto split: sum.split inode.split)
qed

text \<open>After the bytes of a regular file were written at a target that is not a
  directory and not the source, \<open>copymode\<close> gives the target the source's mode.\<close>

lemma copymode_after_write:
  assumes wf: "wf_fs s" and src: "resolve s src = Inr M" "tree s M = Some (File c m)"
    and t: "resolve_target s dst = Inr tg"
    and nd: "\<not> is_dir (tree s) (target_loc tg)" and ne: "target_loc tg \<noteq> M"
    and ns: "\<not> endswith_sep dst"
  shows "copymode src dst (s\<lparr>tree := (tree s)(target_loc tg \<mapsto> File c' m')\<rparr>) =
           (Inr (), s\<lparr>tree := (tree s)(target_loc tg \<mapsto> File c' m)\<rparr>)"
proof -
  define L where "L = target_loc tg"
  define s1 where "s1 = s\<lparr>tree := (tree s)(L \<mapsto> File c' m')\<rparr>"
  have nd': "\<not> is_dir_node (File c' m')" by simp
  have "resolve s1 src = Inr M"
    using resolve_upd_nondir [OF src(1) _ nd', of L] nd by (simp add: s1_def L_def)
  then have st: "os_stat src s1 = (Inr (File c m), s1)"
    using src(2) ne by (simp add: os_stat_def sys_stat_def s1_def L_def)
  have "resolve s1 dst = Inr L"
    using resolve_after_write [OF wf t nd nd' ns] by (simp add: s1_def L_def)
  moreover have "m AND 4095 AND 4095 = m"
    using wf_mode_bound [OF wf src(2)] by (simp add: mode_le_4095_and)
  ultimately have "os_chmod dst (s_imode m) s1 = (Inr (), s\<lparr>tree := (tree s)(L \<mapsto> File c' m)\<rparr>)"
    by (simp add: os_chmod_def sys_chmod_def s1_def s_imode_def)
  then show ?thesis using st by (simp add: copymode_def s1_def L_def)
qed

lemma copyfile_Inl: "copyfile src dst s = (Inl e, s') \<Longrightarrow> s' = s"
  by (auto simp: copyfile_oneshot simp del: special_file_check.simps
      split: if_splits sum.splits option.splits)

text \<open>A successful \<open>copyfile\<close> read a regular file and wrote its bytes at a
  target that is neither a directory nor the source.\<close>

lemma copyfile_Inr:
  assumes "copyfile src dst s = (Inr r, s')" and wf: "wf_fs s"
  obtains M c m tg m' where "resolve s src = Inr M" "tree s M = Some (File c m)"
    "resolve_target s dst = Inr tg" "\<not> is_dir (tree s) (target_loc tg)" "target_loc tg \<noteq> M"
    "s' = s\<lparr>tree := (tree s)(target_loc tg \<mapsto> File c m')\<rparr>" "r = dst"
    "\<not> endswith_sep dst"
proof -
  have ns: "\<not> samefile s src dst" and r: "r = dst" using assms(1)
    by (auto simp: copyfile_oneshot simp del: special_file_check.simps
        split: if_splits sum.splits option.splits)
  obtain c where rd: "sys_read s src = Inr c" and w: "sys_write s dst c = Inr s'"
    using assms(1) ns by (auto simp: copyfile_oneshot simp del: special_file_check.simps
        split: sum.splits if_splits option.splits)
  have "special_file_check s [src, dst] = None"
    using assms(1) ns by (auto simp: copyfile_oneshot simp del: special_file_check.simps
        split: option.splits)
  then have nf: "sys_stat s src \<noteq> Inr (Fifo mf)" for mf by (auto split: sum.splits inode.splits)
  obtain M m where M: "resolve s src = Inr M" "tree s M = Some (File c m)"
    using rd nf by (auto simp: sys_read_def sys_stat_def split: sum.splits option.splits inode.splits if_splits)
  have ps: "\<not> endswith_sep dst" by (rule sys_write_plain [OF w])
  from w show ?thesis
  proof (cases rule: sys_write_Inr)
    case (existing l old m')
    have "l \<noteq> M" using ns M(1) resolve_Existing [OF existing(1) ps]
      by (auto simp: samefile_def)
    show ?thesis
      by (rule that [of M c m "Existing l" m'])
         (use M existing r ps \<open>l \<noteq> M\<close> in \<open>simp_all add: is_dir_def\<close>)
  next
    case (created l pm)
    have l: "tree s l = None" using resolve_target_Absent [OF created(1)] by blast
    show ?thesis
      by (rule that [of M c m "Absent l" "438 AND NOT (umask s)"])
         (use M created r l ps in \<open>auto simp: is_dir_def\<close>)
  qed
qed

text \<open>Every outcome of \<open>shutil.copy\<close>: either the state is unchanged, or the
  target, which was not a directory and not the source, now holds the bytes and
  mode of the source, and nothing else changed.\<close>

lemma shutil_copy_cases:
  assumes "shutil_copy src dst s = (r, s')" and wf: "wf_fs s"
  obtains (unchanged) "s' = s"
  | (copied) M c m tg where "resolve s src = Inr M" "tree s M = Some (File c m)"
      "resolve_target s (if path_isdir s dst then pjoin dst (basename src) else dst) = Inr tg"
      "\<not> is_dir (tree s) (target_loc tg)" "target_loc tg \<noteq> M"
      "s' = s\<lparr>tree := (tree s)(target_loc tg \<mapsto> File c m)\<rparr>"
      "\<not> endswith_sep (if path_isdir s dst then pjoin dst (basename src) else dst)"
proof -
  define d where "d = (if path_isdir s dst then pjoin dst (basename src) else dst)"
  have sc: "shutil_copy src dst s = bindE (copyfile src d) (\<lambda>x. bindE (copymode src d) (\<lambda>u. returnE d)) s"
    by (simp add: shutil_copy_def d_def Let_def)
  obtain x s1 where cf: "copyfile src d s = (x, s1)" by (cases "copyfile src d s")
  show ?thesis
  proof (cases x)
    case (Inl e)
    then show ?thesis using cf copyfile_Inl [of src d s e s1] assms(1) sc unchanged by simp
  next
    case (Inr v)
    with cf wf obtain M c m tg m' where c: "resolve s src = Inr M" "tree s M = Some (File c m)"
      "resolve_target s d = Inr tg" "\<not> is_dir (tree s) (target_loc tg)" "target_loc tg \<noteq> M"
      and s1: "s1 = s\<lparr>tree := (tree s)(target_loc tg \<mapsto> File c m')\<rparr>"
      and ps: "\<not> endswith_sep d"
      by (auto elim: copyfile_Inr)
    have "copymode src d s1 = (Inr (), s\<lparr>tree := (tree s)(target_loc tg \<mapsto> File c m)\<rparr>)"
      unfolding s1 by (rule copymode_after_write [OF wf c ps])
    then have "s' = s\<lparr>tree := (tree s)(target_loc tg \<mapsto> File c m)\<rparr>"
      using assms(1) sc cf Inr by simp
    then show ?thesis using copied [OF c(1,2)] c(3-5) ps by (simp add: d_def)
  qed
qed

text \<open>\<open>shutil.copy\<close> of a readable regular file to a path whose target is not
  a directory and not the source: the target holds the source's bytes and mode,
  and nothing else changes.\<close>

lemma shutil_copy_file:
  assumes wf: "wf_fs s" and perm: "perm_ok s"
    and src: "resolve s src = Inr M" and f: "tree s M = Some (File c m)"
    and t: "resolve_target s dst = Inr tg"
    and nd: "\<not> is_dir (tree s) (target_loc tg)" and ne: "target_loc tg \<noteq> M"
    and ns: "\<not> endswith_sep dst"
  shows "shutil_copy src dst s = (Inr dst, s\<lparr>tree := (tree s)(target_loc tg \<mapsto> File c m)\<rparr>)"
proof -
  define L where "L = target_loc tg"
  have rd: "resolve s dst = Inr l \<Longrightarrow> l = L" for l
    using t resolve_Inr_target [of s dst l] by (auto simp: L_def)
  have "\<not> path_isdir s dst" using rd nd by (auto simp: path_isdir_iff L_def)
  moreover have "\<not> samefile s src dst" using rd src ne by (auto simp: samefile_def L_def split: sum.splits)
  moreover have "sys_read s src = Inr c"
    using src f perm_ok_node [OF perm f] by (simp add: sys_read_def)
  moreover obtain m0 where w: "sys_write s dst c = Inr (s\<lparr>tree := (tree s)(L \<mapsto> File c m0)\<rparr>)"
    using sys_write_ok [OF wf perm t nd ns] L_def by blast
  moreover have "special_file_check s [src, dst] = None" by (rule special_file_check_perm [OF perm])
  ultimately have cf: "copyfile src dst s = (Inr dst, s\<lparr>tree := (tree s)(L \<mapsto> File c m0)\<rparr>)"
    and dd: "(if path_isdir s dst then pjoin dst (basename src) else dst) = dst"
    by (simp_all add: copyfile_oneshot del: special_file_check.simps)
  moreover have "copymode src dst (s\<lparr>tree := (tree s)(L \<mapsto> File c m0)\<rparr>) =
                  (Inr (), s\<lparr>tree := (tree s)(L \<mapsto> File c m)\<rparr>)"
    unfolding L_def by (rule copymode_after_write [OF wf src f t nd ne ns])
  ultimately show ?thesis by (simp add: shutil_copy_def L_def)
qed

text \<open>\<open>shutil.copy\<close> keeps the file system well formed, with the working
  permissions, whatever its outcome, and leaves the process state alone.\<close>

lemma shutil_copy_keeps:
  assumes "fs_inv s"
  shows "fs_inv (snd (shutil_copy src dst s)) \<and> cwd (snd (shutil_copy src dst s)) = cwd s \<and>
         umask (snd (shutil_copy src dst s)) = umask s"
proof (cases "shutil_copy src dst s")
  case (Pair r s')
  have wf: "wf_fs s" and perm: "perm_ok s" using assms by (simp_all add: fs_inv_def)
  from Pair wf have "fs_inv s' \<and> cwd s' = cwd s \<and> umask s' = umask s"
  proof (cases rule: shutil_copy_cases)
    case unchanged
    then show ?thesis using assms by simp
  next
    case (copied M c m tg)
    have "m \<le> 4095" using wf_mode_bound [OF wf copied(2)] by simp
    then have "wf_fs s'" using wf_fs_write_target [OF wf copied(3,4)] copied(6) by simp
    moreover have "perm_ok s'"
      using perm_ok_upd [OF perm perm_ok_node [OF perm copied(2)]] copied(6) by simp
    ultimately show ?thesis using assms copied(6) by (simp add: fs_inv_def umask_ok_def)
  qed
  then show ?thesis using Pair by simp
qed

subsection \<open>Errors of \<open>shutil.copy\<close>\<close>

text \<open>A source that does not resolve: \<open>copyfile\<close> raises the error of
  \<open>open(src, 'rb')\<close>, and nothing changes.  A target that is the source
  itself: \<open>SameFileError\<close>, and nothing changes.\<close>

lemma shutil_copy_src_missing:
  "perm_ok s \<Longrightarrow> resolve s src = Inl e \<Longrightarrow> shutil_copy src dst s = (Inl (oserror e src), s)"
  by (simp add: shutil_copy_def Let_def copyfile_oneshot samefile_def sys_read_def
      special_file_check_perm del: special_file_check.simps)

lemma shutil_copy_same:
  "resolve s src = Inr a \<Longrightarrow> resolve s dst = Inr a \<Longrightarrow> \<not> is_dir (tree s) a \<Longrightarrow>
   shutil_copy src dst s = (Inl (SameFileError src dst), s)"
  by (simp add: shutil_copy_def Let_def copyfile_oneshot samefile_def path_isdir_iff)

text \<open>\<open>shutil.copy\<close> changes no directory; a target directory redirects the
  copy into it.\<close>

lemma shutil_copy_keeps_dir:
  "wf_fs s \<Longrightarrow> tree s x = Some (Dir d) \<Longrightarrow> tree (snd (shutil_copy a b s)) x = Some (Dir d)"
proof -
  assume wf: "wf_fs s" and x: "tree s x = Some (Dir d)"
  obtain r s' where eq: "shutil_copy a b s = (r, s')" by (cases "shutil_copy a b s")
  from eq wf have "tree s' x = Some (Dir d)"
  proof (cases rule: shutil_copy_cases)
    case unchanged
    then show ?thesis using x by simp
  next
    case (copied M c m tg)
    then have "x \<noteq> target_loc tg" using x by (auto simp: is_dir_def)
    then show ?thesis using copied(6) x by simp
  qed
  then show ?thesis using eq by simp
qed

lemma not_path_isdir_target:
  "resolve_target s p = Inr tg \<Longrightarrow> \<not> is_dir (tree s) (target_loc tg) \<Longrightarrow> \<not> path_isdir s p"
  by (cases tg) (auto simp: path_isdir_iff resolve_via_target split: if_splits)

lemma shutil_copy_into_dir:
  "path_isdir s dst \<Longrightarrow> \<not> path_isdir s (pjoin dst (basename src)) \<Longrightarrow>
   shutil_copy src dst s = shutil_copy src (pjoin dst (basename src)) s"
  by (simp add: shutil_copy_def Let_def)

subsection \<open>Paths that end with a separator\<close>

lemma resolve_trailing_nondir:
  "resolve_target s p = Inr tg \<Longrightarrow> \<not> is_dir (tree s) (target_loc tg) \<Longrightarrow> endswith_sep p \<Longrightarrow>
   \<exists>e. resolve s p = Inl e"
  by (cases tg) (auto simp: resolve_via_target)

text \<open>C20: a destination that ends with a separator but names no directory.
  \<open>os.path.isdir\<close> is false, so \<open>shutil.copy\<close> does not redirect; \<open>open(dst,
  'wb')\<close> fails with \<open>EISDIR\<close> (the kernel refuses to create a file under a
  name ending with a separator); \<open>dst\<close> does not exist as a path, so
  \<open>copyfile\<close> turns the error into
  \<open>FileNotFoundError('Directory does not exist: dst')\<close>.  Nothing
  changes, whether or not a regular file of that name exists.\<close>

theorem shutil_copy_trailing_dst:
  assumes src: "resolve s src = Inr M" "tree s M = Some (File c m)" "can_read m"
    and t: "resolve_target s dst = Inr tg" and nd: "\<not> is_dir (tree s) (target_loc tg)"
    and sep: "endswith_sep dst"
  shows "shutil_copy src dst s = (Inl (DirectoryDoesNotExist dst), s)"
proof -
  obtain e where rd: "resolve s dst = Inl e" using resolve_trailing_nondir [OF t nd sep] by blast
  have "\<not> path_isdir s dst" by (rule not_path_isdir_target [OF t nd])
  moreover have "\<not> samefile s src dst" using rd by (simp add: samefile_def split: sum.split)
  moreover have "sys_read s src = Inr c" using src by (simp add: sys_read_def)
  moreover have "sys_write s dst c = Inl EISDIR" using t sep by (simp add: sys_write_def)
  moreover have "\<not> path_exists s dst" using rd by (simp add: path_exists_def sys_stat_def)
  moreover have "special_file_check s [src, dst] = None" using src rd by (simp add: sys_stat_def)
  ultimately show ?thesis
    by (simp add: shutil_copy_def Let_def copyfile_oneshot del: special_file_check.simps)
qed

subsection \<open>Named pipes\<close>

text \<open>C22: \<open>shutil.copy\<close> from a named pipe.  Opening a pipe would wait for a
  writer; \<open>copyfile\<close> checks first and raises \<open>SpecialFileError\<close> naming the
  source, and nothing changes.\<close>

theorem shutil_copy_fifo_src:
  assumes src: "resolve s src = Inr M" "tree s M = Some (Fifo m)"
    and nd: "\<not> path_isdir s dst" and ns: "\<not> samefile s src dst"
  shows "shutil_copy src dst s = (Inl (SpecialFileError src), s)"
proof -
  have "special_file_check s [src, dst] = Some (SpecialFileError src)"
    using src by (simp add: sys_stat_def)
  then show ?thesis using nd ns
    by (simp add: shutil_copy_def Let_def copyfile_oneshot del: special_file_check.simps)
qed

text \<open>C23: \<open>shutil.copy\<close> onto a named pipe.  A readable regular file copied to
  a path that names a pipe: \<open>open(dst, 'wb')\<close> would wait for a reader, so
  \<open>copyfile\<close> raises \<open>SpecialFileError\<close> naming the destination instead, and
  nothing changes.\<close>

theorem shutil_copy_fifo_dst:
  assumes src: "resolve s src = Inr M" "tree s M = Some (File c m)"
    and dst: "resolve s dst = Inr L" "tree s L = Some (Fifo m')"
  shows "shutil_copy src dst s = (Inl (SpecialFileError dst), s)"
proof -
  have "\<not> path_isdir s dst" using dst by (auto simp: path_isdir_iff is_dir_def)
  moreover have "\<not> samefile s src dst" using src dst by (auto simp: samefile_def)
  moreover have "special_file_check s [src, dst] = Some (SpecialFileError dst)"
    using src dst by (simp add: sys_stat_def)
  ultimately show ?thesis
    by (simp add: shutil_copy_def Let_def copyfile_oneshot del: special_file_check.simps)
qed

end
