(* ===== verification/Install.thy ===== *)
theory Install
  imports Shutil
begin

text \<open>
  The installer, \<open>src/install_bindist.py\<close>, run as
  \<open>python3 install_bindist.py source_dir dest_dir main_src main_dest_name extra...\<close>.
  The list \<open>argv\<close> is \<open>sys.argv\<close>, with the script's name at index 0.  Indexing
  \<open>sys.argv\<close> out of range raises \<open>IndexError\<close>; the slice \<open>sys.argv[5:]\<close>
  never raises.  The statements run in the order of the script, each argument
  expression left to right, and the first exception stops the script with the
  file system as the earlier statements left it.

  The theory also holds the abstract installer \<open>install_spec\<close>: the tree that
  results from creating the destination, copying the main file under its new
  name and copying each extra file, stated on locations, without paths,
  permissions or exceptions.
\<close>

unbundle bit_operations_syntax

subsection \<open>The script\<close>

text \<open>\<open>sys.argv[i]\<close>.\<close>

definition argv_get :: "string list \<Rightarrow> nat \<Rightarrow> string pyio" where
  "argv_get argv i = (if i < length argv then returnE (argv ! i) else raiseE IndexError)"

text \<open>Lines 8--9: the loop over the extra files, which reads \<open>sys.argv[1]\<close>
  and \<open>sys.argv[2]\<close> again at each iteration.\<close>

fun install_extras :: "string list \<Rightarrow> string list \<Rightarrow> unit pyio" where
  "install_extras argv [] = returnE ()"
| "install_extras argv (f # fs) =
     bindE (argv_get argv 1) (\<lambda>source_dir.
     bindE (argv_get argv 2) (\<lambda>dest_dir.
     bindE (shutil_copy (pjoin source_dir f) (pjoin dest_dir f)) (\<lambda>r.
     install_extras argv fs)))"

text \<open>Lines 6--9: \<open>shutil.copy(sys.argv[3], os.path.join(sys.argv[2], sys.argv[4]))\<close>,
  its arguments evaluated left to right, then the loop over \<open>sys.argv[5:]\<close>.\<close>

definition install_copies :: "string list \<Rightarrow> unit pyio" where
  "install_copies argv =
     bindE (argv_get argv 3) (\<lambda>main_src.
     bindE (argv_get argv 2) (\<lambda>dest_dir.
     bindE (argv_get argv 4) (\<lambda>main_dest_name.
     bindE (shutil_copy main_src (pjoin dest_dir main_dest_name)) (\<lambda>r.
     install_extras argv (drop 5 argv)))))"

text \<open>Lines 5--9: \<open>os.makedirs(sys.argv[2], exist_ok=True)\<close>, with the default
  mode \<open>0o777\<close>, then the copies.\<close>

definition install :: "string list \<Rightarrow> unit pyio" where
  "install argv =
     bindE (argv_get argv 2) (\<lambda>dest_dir.
     bindE (makedirs dest_dir 511 True) (\<lambda>u.
     install_copies argv))"

text \<open>The process: the interpreter runs the module (lines 1--3 import
  \<open>os\<close>, \<open>sys\<close> and \<open>shutil\<close>, which do not touch the file system); an
  uncaught exception prints its traceback and ends the process with status 1,
  a normal end gives status 0.\<close>

definition run :: "string list \<Rightarrow> fsys \<Rightarrow> nat \<times> fsys" where
  "run argv s = (case install argv s of (Inr u, s') \<Rightarrow> (0, s') | (Inl e, s') \<Rightarrow> (1, s'))"

text \<open>The states that successive runs of the installer reach from a state
  \<open>s0\<close>, each run with any command line, one after the other.\<close>

inductive runs_from :: "fsys \<Rightarrow> fsys \<Rightarrow> bool" for s0 :: fsys where
  start: "runs_from s0 s0"
| step: "runs_from s0 s \<Longrightarrow> run argv s = (k, s') \<Longrightarrow> runs_from s0 s'"

subsection \<open>The abstract installer\<close>

text \<open>Copying a regular file, bytes and mode, from one location to another;
  anything else is left alone.\<close>

definition copy_node :: "tree \<Rightarrow> loc \<Rightarrow> loc \<Rightarrow> tree" where
  "copy_node t a b = (case t a of Some (File c m) \<Rightarrow> t(b \<mapsto> File c m) | _ \<Rightarrow> t)"

primrec copy_all :: "tree \<Rightarrow> loc \<Rightarrow> loc \<Rightarrow> name list \<Rightarrow> tree" where
  "copy_all t S D [] = t"
| "copy_all t S D (f # fs) = copy_all (copy_node t (S @ [f]) (D @ [f])) S D fs"

text \<open>The installer on the tree: the directories along the destination from
  \<open>st\<close> by the names \<open>cs\<close> are created with mode \<open>dm\<close>, the main file at \<open>M\<close> is
  copied to the destination under the name \<open>n\<close>, then each extra file of the
  source directory \<open>S\<close>, in order.\<close>

definition install_spec ::
  "tree \<Rightarrow> loc \<Rightarrow> name list \<Rightarrow> mode \<Rightarrow> loc \<Rightarrow> name \<Rightarrow> loc \<Rightarrow> name list \<Rightarrow> tree" where
  "install_spec t st cs dm M n S fs =
     (let t1 = add_dirs t st cs dm; D = st @ cs
      in copy_all (copy_node t1 M (D @ [n])) S D fs)"

subsection \<open>The loop over the extra files\<close>

lemma argv_get_ok [simp]: "i < length argv \<Longrightarrow> argv_get argv i s = (Inr (argv ! i), s)"
  by (simp add: argv_get_def)

lemma copy_node_file: "t a = Some (File c m) \<Longrightarrow> copy_node t a b = t(b \<mapsto> File c m)"
  by (simp add: copy_node_def)

lemma is_file_Some: "is_file t l \<longleftrightarrow> (\<exists>c m. t l = Some (File c m))"
  by (auto simp: is_file_def split: option.splits inode.splits)

lemma is_file_not_None: "is_file t l \<Longrightarrow> t l \<noteq> None"
  by (auto simp: is_file_def split: option.splits)

lemma is_file_not_dir: "is_file t l \<Longrightarrow> \<not> is_dir t l"
  by (auto simp: is_file_def is_dir_def split: option.splits inode.splits)

text \<open>When the source directory and the destination differ, every extra is a
  readable regular file of the source directory and no extra names a directory
  of the destination, the loop copies them all.\<close>

lemma install_extras_copies:
  assumes "wf_fs s" "perm_ok s" "2 < length argv"
    and "resolve s (argv ! 1) = Inr S" "resolve s (argv ! 2) = Inr D" "is_dir (tree s) D" "S \<noteq> D"
    and "\<forall>f\<in>set fs. simple_name f \<and> is_file (tree s) (S @ [f]) \<and> \<not> is_dir (tree s) (D @ [f])"
  shows "install_extras argv fs s = (Inr (), s\<lparr>tree := copy_all (tree s) S D fs\<rparr>)"
  using assms
proof (induction fs arbitrary: s)
  case Nil
  then show ?case by simp
next
  case (Cons f fs)
  note wf = Cons.prems(1) and perm = Cons.prems(2) and rs = Cons.prems(4) and rd = Cons.prems(5)
  have f: "simple_name f" "is_file (tree s) (S @ [f])" "\<not> is_dir (tree s) (D @ [f])"
    using Cons.prems(8) by simp_all
  obtain c m where src: "tree s (S @ [f]) = Some (File c m)" using f(2) is_file_Some by blast
  have sdir: "is_dir (tree s) S"
    using wf src unfolding wf_fs_def by (metis butlast_snoc domI snoc_eq_iff_butlast)
  have rsrc: "resolve s (pjoin (argv ! 1) f) = Inr (S @ [f])"
    using resolve_pjoin [OF perm rs sdir f(1)] src by simp
  define tg where "tg = (if tree s (D @ [f]) = None then Absent (D @ [f]) else Existing (D @ [f]))"
  have tl: "target_loc tg = D @ [f]" by (simp add: tg_def)
  have rdst: "resolve_target s (pjoin (argv ! 2) f) = Inr tg"
    using resolve_target_pjoin [OF perm rd Cons.prems(6) f(1)] by (simp add: tg_def)
  have cp: "shutil_copy (pjoin (argv ! 1) f) (pjoin (argv ! 2) f) s =
              (Inr (pjoin (argv ! 2) f), s\<lparr>tree := (tree s)(D @ [f] \<mapsto> File c m)\<rparr>)"
    using shutil_copy_file [OF wf perm rsrc src rdst] f(3) Cons.prems(7) tl pjoin_not_endswith [OF f(1)]
    by simp
  define s' where "s' = s\<lparr>tree := (tree s)(D @ [f] \<mapsto> File c m)\<rparr>"
  have nd: "\<not> is_dir_node (File c m)" by simp
  have "install_extras argv fs s' = (Inr (), s'\<lparr>tree := copy_all (tree s') S D fs\<rparr>)"
  proof (rule Cons.IH)
    show "wf_fs s'"
      unfolding s'_def
      using wf_fs_put_file [OF wf Cons.prems(6) f(1,3)] wf_mode_bound [OF wf src] by simp
    show "perm_ok s'" unfolding s'_def using perm_ok_upd [OF perm perm_ok_node [OF perm src]] .
    show "resolve s' (argv ! 1) = Inr S"
      unfolding s'_def using resolve_upd_nondir [OF rs f(3) nd] .
    show "resolve s' (argv ! 2) = Inr D"
      unfolding s'_def using resolve_upd_nondir [OF rd f(3) nd] .
    show "is_dir (tree s') D" using Cons.prems(6) by (simp add: s'_def is_dir_def)
    show "\<forall>g\<in>set fs. simple_name g \<and> is_file (tree s') (S @ [g]) \<and> \<not> is_dir (tree s') (D @ [g])"
      using Cons.prems(7,8) by (auto simp: s'_def is_file_def is_dir_def)
  qed (use Cons.prems in simp_all)
  then show ?case
    using cp Cons.prems(3) src by (simp add: s'_def copy_node_file)
qed

subsection \<open>The script up to the loop\<close>

lemma owner_rwx_511: "owner_rwx 511"
  by (simp add: owner_rwx_def)

text \<open>Creating directories changes no entry that existed.\<close>

lemma add_dirs_old: "t l \<noteq> None \<Longrightarrow> add_dirs t st xs m l = t l"
  by (simp add: add_dirs_apply)

lemma resolve_add_dirs:
  "resolve s p = Inr l \<Longrightarrow> resolve (s\<lparr>tree := add_dirs (tree s) st xs m\<rparr>) p = Inr l"
  by (rule resolve_mono) (auto simp: add_dirs_old)

text \<open>Line 5 on a destination path of plain names with no regular file along
  it: the missing directories are created, and the destination resolves to a
  directory.\<close>

lemma makedirs_dest:
  assumes wf: "wf_fs s" and perm: "perm_ok s" "umask_ok s"
    and dd: "path_comps dd \<noteq> []" "plain_comps (path_comps dd)"
      "no_file_on (tree s) (start_loc s dd) (path_comps dd)"
    and D: "D = start_loc s dd @ path_comps dd"
    and s1: "s1 = s\<lparr>tree := add_dirs (tree s) (start_loc s dd) (path_comps dd) (511 AND NOT (umask s) AND 1023)\<rparr>"
  shows "makedirs dd 511 True s = (Inr (), s1) \<and> wf_fs s1 \<and> perm_ok s1 \<and>
    resolve s1 dd = Inr D \<and> is_dir (tree s1) D"
proof -
  have ne: "dd \<noteq> []" using dd(1) by auto
  have mk: "makedirs dd 511 True s = (Inr (), s1)"
    using makedirs_creates [OF wf perm ne dd] by (simp add: s1)
  have wf1: "wf_fs s1" using makedirs_wf [OF wf, of dd 511 True] mk by simp
  have perm1: "perm_ok s1" using makedirs_perm [OF perm owner_rwx_511, of dd True] mk by simp
  have st: "is_dir (tree s) (start_loc s dd)" by (rule start_loc_dir [OF wf])
  have "walk (tree s1) (start_loc s dd) (path_comps dd) = Inr D"
    using add_dirs_walk [OF perm1 _ dd(2,3) st] D by (simp add: s1)
  moreover have "start_loc s1 dd = start_loc s dd" by (simp add: s1 start_loc_def)
  moreover have isd: "is_dir (tree s1) D"
    using add_dirs_is_dir [OF dd(3) st, of "length (path_comps dd)"] D by (simp add: s1)
  ultimately have rd: "resolve s1 dd = Inr D" using ne by (simp add: resolve_iff_walk)
  then show ?thesis using mk wf1 perm1 isd by simp
qed

text \<open>Lines 5 and 6 under the preconditions of the script: the destination is
  created, the main file is copied under its new name, and the loop starts from
  the resulting state, in which everything that resolved still resolves.\<close>

lemma install_to_extras:
  assumes wf: "wf_fs s" and perm: "perm_ok s" "umask_ok s"
    and argv: "argv = script # sd # dd # ms # n # fs"
    and dd: "path_comps dd \<noteq> []" "plain_comps (path_comps dd)"
      "no_file_on (tree s) (start_loc s dd) (path_comps dd)"
    and D: "D = start_loc s dd @ path_comps dd"
    and rm: "resolve s ms = Inr M" "tree s M = Some (File c m)" "M \<noteq> D @ [n]"
    and n: "simple_name n" "\<not> is_dir (tree s) (D @ [n])"
    and s2: "s2 = s\<lparr>tree := (add_dirs (tree s) (start_loc s dd) (path_comps dd) (511 AND NOT (umask s) AND 1023))
                              (D @ [n] \<mapsto> File c m)\<rparr>"
  shows "install argv s = install_extras argv fs s2 \<and> wf_fs s2 \<and> perm_ok s2 \<and>
    resolve s2 dd = Inr D \<and> is_dir (tree s2) D \<and>
    (\<forall>p l. resolve s p = Inr l \<longrightarrow> resolve s2 p = Inr l)"
proof -
  define s1 where "s1 = s\<lparr>tree := add_dirs (tree s) (start_loc s dd) (path_comps dd) (511 AND NOT (umask s) AND 1023)\<rparr>"
  note mk = makedirs_dest [OF wf perm dd D s1_def]
  have wf1: "wf_fs s1" and perm1: "perm_ok s1" and rd1: "resolve s1 dd = Inr D"
    and isd1: "is_dir (tree s1) D" using mk by simp_all
  have old: "tree s1 l = tree s l" if "tree s l \<noteq> None" for l
    using that by (simp add: s1_def add_dirs_old)
  have nd1: "\<not> is_dir (tree s1) (D @ [n])" using n(2) D by (simp add: s1_def add_dirs_beyond is_dir_def)
  have M1: "tree s1 M = Some (File c m)" using old rm(2) by simp
  have res1: "resolve s1 p = Inr l" if "resolve s p = Inr l" for p l
    using resolve_add_dirs [OF that] by (simp add: s1_def)
  define tg where "tg = (if tree s1 (D @ [n]) = None then Absent (D @ [n]) else Existing (D @ [n]))"
  have tl: "target_loc tg = D @ [n]" by (simp add: tg_def)
  have "resolve_target s1 (pjoin dd n) = Inr tg"
    using resolve_target_pjoin [OF perm1 rd1 isd1 n(1)] by (simp add: tg_def)
  then have cp: "shutil_copy ms (pjoin dd n) s1 = (Inr (pjoin dd n), s2)"
    using shutil_copy_file [OF wf1 perm1 res1 [OF rm(1)] M1] nd1 rm(3) tl pjoin_not_endswith [OF n(1)]
    by (simp add: s2 s1_def)
  have s2': "s2 = s1\<lparr>tree := (tree s1)(D @ [n] \<mapsto> File c m)\<rparr>" by (simp add: s2 s1_def)
  have nd: "\<not> is_dir_node (File c m)" by simp
  have "wf_fs s2"
    unfolding s2' using wf_fs_put_file [OF wf1 isd1 n(1) nd1] wf_mode_bound [OF wf rm(2)] by simp
  moreover have "perm_ok s2" unfolding s2' using perm_ok_upd [OF perm1 perm_ok_node [OF perm1 M1]] .
  moreover have "resolve s2 p = Inr l" if "resolve s1 p = Inr l" for p l
    unfolding s2' using resolve_upd_nondir [OF that nd1 nd] .
  moreover have "is_dir (tree s2) D" using isd1 by (simp add: s2' is_dir_def)
  ultimately show ?thesis using mk cp res1 rd1 argv by (simp add: install_def install_copies_def)
qed

lemma install_extras_append:
  "install_extras argv (xs @ ys) = bindE (install_extras argv xs) (\<lambda>u. install_extras argv ys)"
  by (induction xs) (simp_all add: bindE_assoc)

text \<open>From the state in which the loop starts, extras that are readable regular
  files of the source directory, whose targets are not directories, are all
  copied.\<close>

lemma install_extras_from:
  assumes wf: "wf_fs s" and perm: "perm_ok s" "umask_ok s"
    and argv: "argv = script # sd # dd # ms # n # fs"
    and dd: "path_comps dd \<noteq> []" "plain_comps (path_comps dd)"
      "no_file_on (tree s) (start_loc s dd) (path_comps dd)"
    and D: "D = start_loc s dd @ path_comps dd"
    and rm: "resolve s ms = Inr M" "tree s M = Some (File c m)" "M \<noteq> D @ [n]"
    and n: "simple_name n" "\<not> is_dir (tree s) (D @ [n])"
    and s2: "s2 = s\<lparr>tree := (add_dirs (tree s) (start_loc s dd) (path_comps dd) (511 AND NOT (umask s) AND 1023))
                              (D @ [n] \<mapsto> File c m)\<rparr>"
    and rs: "resolve s sd = Inr S" "S \<noteq> D"
    and gs: "\<forall>g\<in>set gs. simple_name g \<and> is_file (tree s) (S @ [g]) \<and> \<not> is_dir (tree s) (D @ [g])"
  shows "install_extras argv gs s2 = (Inr (), s2\<lparr>tree := copy_all (tree s2) S D gs\<rparr>)"
proof (rule install_extras_copies)
  note ex = install_to_extras [OF wf perm argv dd D rm n s2]
  show "wf_fs s2" "perm_ok s2" "resolve s2 (argv ! 2) = Inr D" "is_dir (tree s2) D"
    "resolve s2 (argv ! 1) = Inr S" using ex rs argv by simp_all
  show "\<forall>g\<in>set gs. simple_name g \<and> is_file (tree s2) (S @ [g]) \<and> \<not> is_dir (tree s2) (D @ [g])"
  proof
    fix g assume g: "g \<in> set gs"
    have "tree s (S @ [g]) \<noteq> None" using gs g is_file_not_None by blast
    then have "tree s2 (S @ [g]) = tree s (S @ [g])" using rs(2) by (simp add: s2 add_dirs_old)
    moreover have "tree s2 (D @ [g]) = tree s (D @ [g]) \<or> g = n"
      using D by (auto simp: s2 add_dirs_beyond)
    ultimately show "simple_name g \<and> is_file (tree s2) (S @ [g]) \<and> \<not> is_dir (tree s2) (D @ [g])"
      using gs g by (auto simp: s2 is_file_def is_dir_def)
  qed
qed (use argv rs in simp_all)

subsection \<open>The whole script\<close>

text \<open>The script from a well-formed state with the working permissions: the
  destination path is made of plain names with no regular file along it, the
  main file and the extras are readable regular files, the source directory is
  not the destination, the main file is not the main target, and no target is a
  directory.  Then every statement succeeds and the tree ends as
  \<open>os.makedirs\<close> and the copies leave it.\<close>

lemma install_runs:
  assumes wf: "wf_fs s" and perm: "perm_ok s" "umask_ok s"
    and argv: "argv = script # sd # dd # ms # n # fs"
    and dd: "path_comps dd \<noteq> []" "plain_comps (path_comps dd)"
      "no_file_on (tree s) (start_loc s dd) (path_comps dd)"
    and D: "D = start_loc s dd @ path_comps dd"
    and rm: "resolve s ms = Inr M" "tree s M = Some (File c m)" "M \<noteq> D @ [n]"
    and rs: "resolve s sd = Inr S" "S \<noteq> D"
    and n: "simple_name n" "\<not> is_dir (tree s) (D @ [n])"
    and fs: "\<forall>f\<in>set fs. simple_name f \<and> is_file (tree s) (S @ [f]) \<and> \<not> is_dir (tree s) (D @ [f])"
  shows "install argv s =
    (Inr (), s\<lparr>tree := copy_all
       ((add_dirs (tree s) (start_loc s dd) (path_comps dd) (511 AND NOT (umask s) AND 1023))
          (D @ [n] \<mapsto> File c m)) S D fs\<rparr>)"
proof -
  define T1 where "T1 = (add_dirs (tree s) (start_loc s dd) (path_comps dd) (511 AND NOT (umask s) AND 1023))
                           (D @ [n] \<mapsto> File c m)"
  note ex = install_to_extras [OF wf perm argv dd D rm n refl]
  show ?thesis
    using ex install_extras_from [OF wf perm argv dd D rm n refl rs fs] by (simp add: T1_def)
qed

subsection \<open>Invariants of the script\<close>

text \<open>Every outcome of every statement keeps the file system well formed with
  the working permissions, and leaves the current directory and the umask.\<close>

lemma argv_get_state [simp]: "snd (argv_get argv i s) = s"
  by (simp add: argv_get_def)

lemma makedirs_keeps_inv:
  "fs_inv s \<Longrightarrow> fs_inv (snd (makedirs d 511 True s)) \<and> cwd (snd (makedirs d 511 True s)) = cwd s \<and>
     umask (snd (makedirs d 511 True s)) = umask s"
  using makedirs_wf makedirs_perm [OF _ _ owner_rwx_511] makedirs_proc
  by (simp add: fs_inv_def umask_ok_def)

lemma install_extras_keeps:
  "fs_inv s \<Longrightarrow> fs_inv (snd (install_extras argv fs s)) \<and> cwd (snd (install_extras argv fs s)) = cwd s \<and>
     umask (snd (install_extras argv fs s)) = umask s"
proof (induction fs arbitrary: s)
  case Nil
  then show ?case by simp
next
  case (Cons f fs)
  let ?P = "\<lambda>s'. fs_inv s' \<and> cwd s' = cwd s \<and> umask s' = umask s"
  have "?P (snd (install_extras argv (f # fs) s))"
    unfolding install_extras.simps
  proof (intro bindE_keeps [where P = ?P])
    show "?P (snd (shutil_copy a b s'))" if "?P s'" for a b s'
      using shutil_copy_keeps [of s' a b] that by simp
    show "?P (snd (install_extras argv fs s'))" if "?P s'" for s'
      using Cons.IH [of s'] that by simp
  qed (use Cons.prems in simp_all)
  then show ?case by simp
qed

lemma install_keeps:
  "fs_inv s \<Longrightarrow> fs_inv (snd (install argv s)) \<and> cwd (snd (install argv s)) = cwd s \<and>
     umask (snd (install argv s)) = umask s"
proof -
  assume inv: "fs_inv s"
  let ?P = "\<lambda>s'. fs_inv s' \<and> cwd s' = cwd s \<and> umask s' = umask s"
  have "?P (snd (install argv s))"
    unfolding install_def install_copies_def
  proof (intro bindE_keeps [where P = ?P])
    show "?P (snd (makedirs d 511 True s'))" if "?P s'" for d s'
      using makedirs_keeps_inv [of s' d] that by simp
    show "?P (snd (shutil_copy a b s'))" if "?P s'" for a b s'
      using shutil_copy_keeps [of s' a b] that by simp
    show "?P (snd (install_extras argv fs s'))" if "?P s'" for fs s'
      using install_extras_keeps [of s' argv fs] that by simp
  qed (use inv in simp_all)
  then show ?thesis by simp
qed

subsection \<open>The abstract copy loop\<close>

lemma copy_node_other: "l \<noteq> b \<Longrightarrow> copy_node t a b l = t l"
  by (simp add: copy_node_def split: option.split inode.split)

text \<open>The abstract copy loop, location by location, when the source directory
  is not the destination: an entry of the destination named by an extra holds
  the source's file, when the source is a regular file; nothing else changes.\<close>

lemma copy_node_apply: "copy_node t a b l = (if l = b \<and> is_file t a then t a else t l)"
  by (auto simp: copy_node_def is_file_def split: option.split inode.split)

lemma copy_all_apply:
  "S \<noteq> D \<Longrightarrow> copy_all t S D fs l =
     (if \<exists>f\<in>set fs. l = D @ [f] \<and> is_file t (S @ [f]) then t (S @ [last l]) else t l)"
proof (induction fs arbitrary: t)
  case Nil
  then show ?case by simp
next
  case (Cons f fs)
  define t' where "t' = copy_node t (S @ [f]) (D @ [f])"
  have src: "t' (S @ [g]) = t (S @ [g])" for g
    using Cons.prems by (simp add: t'_def copy_node_other)
  then have isf: "is_file t' (S @ [g]) = is_file t (S @ [g])" for g
    by (simp add: is_file_def)
  have "copy_all t S D (f # fs) l = copy_all t' S D fs l" by (simp add: t'_def)
  also have "\<dots> = (if \<exists>g\<in>set fs. l = D @ [g] \<and> is_file t (S @ [g]) then t (S @ [last l]) else t' l)"
    using Cons.IH [OF Cons.prems, of t'] src isf by auto
  finally show ?case
    by (auto simp: t'_def copy_node_apply)
qed

lemma copy_all_outside: "S \<noteq> D \<Longrightarrow> \<forall>f\<in>set fs. l \<noteq> D @ [f] \<Longrightarrow> copy_all t S D fs l = t l"
  by (auto simp: copy_all_apply)

lemma copy_all_inside:
  "S \<noteq> D \<Longrightarrow> f \<in> set fs \<Longrightarrow> is_file t (S @ [f]) \<Longrightarrow> copy_all t S D fs (D @ [f]) = t (S @ [f])"
  by (auto simp: copy_all_apply)

text \<open>The loop reads only the sources, which it does not write: two trees that
  agree outside the entries it writes, and whose sources are regular files, give
  the same result.\<close>

lemma copy_all_cong:
  assumes "S \<noteq> D" and "\<forall>l. (\<forall>f\<in>set fs. l \<noteq> D @ [f]) \<longrightarrow> u l = v l"
    and "\<forall>f\<in>set fs. is_file u (S @ [f])"
  shows "copy_all u S D fs = copy_all v S D fs"
proof
  fix l
  have src: "u (S @ [f]) = v (S @ [f])" for f
    using assms(1,2) by auto
  then have "is_file v (S @ [f])" if "f \<in> set fs" for f
    using assms(3) that by (simp add: is_file_def)
  then show "copy_all u S D fs l = copy_all v S D fs l"
    using assms src by (auto simp: copy_all_apply)
qed

text \<open>Resolution survives the copy loop when the loop writes no directory.\<close>

lemma copy_all_dirs:
  "S \<noteq> D \<Longrightarrow> \<forall>f\<in>set fs. \<not> is_dir t (D @ [f]) \<Longrightarrow> t x = Some (Dir m) \<Longrightarrow> copy_all t S D fs x = Some (Dir m)"
  by (auto simp: copy_all_apply is_dir_def)

lemma copy_all_dom: "S \<noteq> D \<Longrightarrow> dom t \<subseteq> dom (copy_all t S D fs)"
  by (auto simp: copy_all_apply dest!: is_file_not_None)

lemma resolve_copy_all:
  "S \<noteq> D \<Longrightarrow> \<forall>f\<in>set fs. \<not> is_dir (tree s) (D @ [f]) \<Longrightarrow> resolve s p = Inr l \<Longrightarrow>
   resolve (s\<lparr>tree := copy_all (tree s) S D fs\<rparr>) p = Inr l"
  by (rule resolve_mono) (simp_all add: copy_all_dirs copy_all_dom)

subsection \<open>The state after a successful run\<close>

text \<open>The tree after the script, location by location.\<close>

lemma install_runs_apply:
  assumes wf: "wf_fs s" and perm: "perm_ok s" "umask_ok s"
    and argv: "argv = script # sd # dd # ms # n # fs"
    and dd: "path_comps dd \<noteq> []" "plain_comps (path_comps dd)"
      "no_file_on (tree s) (start_loc s dd) (path_comps dd)"
    and D: "D = start_loc s dd @ path_comps dd"
    and rm: "resolve s ms = Inr M" "tree s M = Some (File c m)" "M \<noteq> D @ [n]"
    and rs: "resolve s sd = Inr S" "S \<noteq> D"
    and n: "simple_name n" "\<not> is_dir (tree s) (D @ [n])"
    and fs: "\<forall>f\<in>set fs. simple_name f \<and> is_file (tree s) (S @ [f]) \<and> \<not> is_dir (tree s) (D @ [f])"
  shows "fst (install argv s) = Inr ()" "cwd (snd (install argv s)) = cwd s"
    "umask (snd (install argv s)) = umask s"
    "tree (snd (install argv s)) l =
       (if \<exists>f\<in>set fs. l = D @ [f] then tree s (S @ [last l])
        else if l = D @ [n] then Some (File c m)
        else add_dirs (tree s) (start_loc s dd) (path_comps dd) (511 AND NOT (umask s) AND 1023) l)"
proof -
  define T1 where "T1 = (add_dirs (tree s) (start_loc s dd) (path_comps dd) (511 AND NOT (umask s) AND 1023))
                           (D @ [n] \<mapsto> File c m)"
  have run: "install argv s = (Inr (), s\<lparr>tree := copy_all T1 S D fs\<rparr>)"
    using install_runs [OF assms] by (simp add: T1_def)
  then show "fst (install argv s) = Inr ()" "cwd (snd (install argv s)) = cwd s"
    "umask (snd (install argv s)) = umask s" by simp_all
  have src: "T1 (S @ [f]) = tree s (S @ [f])" if "f \<in> set fs" for f
  proof -
    have "tree s (S @ [f]) \<noteq> None" using fs that is_file_not_None by blast
    then show ?thesis using rs(2) by (simp add: T1_def add_dirs_old)
  qed
  have "is_file T1 (S @ [f])" if "f \<in> set fs" for f
    using src [OF that] fs that by (simp add: is_file_def)
  then show "tree (snd (install argv s)) l = (if \<exists>f\<in>set fs. l = D @ [f] then tree s (S @ [last l])
        else if l = D @ [n] then Some (File c m)
        else add_dirs (tree s) (start_loc s dd) (path_comps dd) (511 AND NOT (umask s) AND 1023) l)"
    using run src rs(2) by (auto simp: copy_all_apply T1_def)
qed

text \<open>After a successful run, the preconditions of the script hold again, for
  the same main file and source directory, as long as the main file is not
  among the extras' targets: the destination exists, nothing the run resolved
  was moved, and the targets are regular files.\<close>

lemma install_runs_again:
  assumes wf: "wf_fs s" and perm: "perm_ok s" "umask_ok s"
    and argv: "argv = script # sd # dd # ms # n # fs"
    and dd: "path_comps dd \<noteq> []" "plain_comps (path_comps dd)"
      "no_file_on (tree s) (start_loc s dd) (path_comps dd)"
    and D: "D = start_loc s dd @ path_comps dd"
    and rm: "resolve s ms = Inr M" "tree s M = Some (File c m)" "M \<noteq> D @ [n]"
    and rs: "resolve s sd = Inr S" "S \<noteq> D"
    and n: "simple_name n" "\<not> is_dir (tree s) (D @ [n])"
    and fs: "\<forall>f\<in>set fs. simple_name f \<and> is_file (tree s) (S @ [f]) \<and> \<not> is_dir (tree s) (D @ [f])"
    and s': "s' = snd (install argv s)"
  shows "wf_fs s' \<and> perm_ok s' \<and> umask_ok s' \<and> start_loc s' dd = start_loc s dd \<and>
    umask s' = umask s \<and> no_file_on (tree s') (start_loc s' dd) (path_comps dd) \<and>
    resolve s' ms = Inr M \<and> is_file (tree s') M \<and> resolve s' sd = Inr S \<and>
    \<not> is_dir (tree s') (D @ [n]) \<and>
    (\<forall>f\<in>set fs. simple_name f \<and> is_file (tree s') (S @ [f]) \<and> \<not> is_dir (tree s') (D @ [f])) \<and>
    (\<forall>k. 0 < k \<longrightarrow> k \<le> length (path_comps dd) \<longrightarrow> tree s' (start_loc s dd @ take k (path_comps dd)) \<noteq> None)"
proof -
  note r = install_runs_apply [OF assms(1-16)]
  define A where "A = add_dirs (tree s) (start_loc s dd) (path_comps dd) (511 AND NOT (umask s) AND 1023)"
  have t': "tree s' l = (if \<exists>f\<in>set fs. l = D @ [f] then tree s (S @ [last l])
              else if l = D @ [n] then Some (File c m) else A l)" for l
    using r(4) s' by (simp add: A_def)
  have inv: "fs_inv s'" using install_keeps [of s argv] wf perm s' by (simp add: fs_inv_def)
  have st: "start_loc s' dd = start_loc s dd" using r(2) s' by (simp add: start_loc_def)
  have srcf: "is_file (tree s) (S @ [f])" "tree s (S @ [f]) \<noteq> None" if "f \<in> set fs" for f
    using fs that is_file_not_None by blast+
  have pre: "is_dir (tree s') (start_loc s dd @ take k (path_comps dd))" if "k \<le> length (path_comps dd)" for k
  proof -
    have "length (start_loc s dd @ take k (path_comps dd)) < length (D @ [x])" for x
      using that D by simp
    then have "tree s' (start_loc s dd @ take k (path_comps dd)) = A (start_loc s dd @ take k (path_comps dd))"
      using t' by (metis (no_types, lifting) less_irrefl)
    then show ?thesis
      using add_dirs_is_dir [OF dd(3) start_loc_dir [OF wf] that] by (simp add: A_def is_dir_def)
  qed
  have dirs: "\<forall>x m'. tree s x = Some (Dir m') \<longrightarrow> tree s' x = Some (Dir m')"
    using t' n(2) fs by (auto simp: A_def add_dirs_old is_dir_def)
  have dom: "dom (tree s) \<subseteq> dom (tree s')"
    using t' srcf by (auto simp: A_def add_dirs_old)
  have eq: "s' = s\<lparr>tree := tree s'\<rparr>" using r(2,3) s' by simp
  have res: "resolve s' p = Inr l" if "resolve s p = Inr l" for p l
    using resolve_mono [OF that dirs dom] eq by simp
  have "is_file (tree s') M"
  proof (cases "\<exists>f\<in>set fs. M = D @ [f]")
    case True
    then obtain f where "f \<in> set fs" "M = D @ [f]" by blast
    then show ?thesis using t' [of M] srcf(1) [OF \<open>f \<in> set fs\<close>] by (auto simp: is_file_def)
  next
    case False
    then show ?thesis using t' [of M] rm(2,3) by (simp add: A_def add_dirs_old is_file_def)
  qed
  moreover have "\<not> is_dir (tree s') (D @ [n])"
  proof (cases "n \<in> set fs")
    case True
    then obtain c' m' where "tree s (S @ [n]) = Some (File c' m')" using srcf(1) is_file_Some by blast
    then show ?thesis using t' [of "D @ [n]"] True by (auto simp: is_dir_def)
  next
    case False
    then show ?thesis using t' [of "D @ [n]"] by (simp add: is_dir_def)
  qed
  moreover have "\<forall>f\<in>set fs. simple_name f \<and> is_file (tree s') (S @ [f]) \<and> \<not> is_dir (tree s') (D @ [f])"
  proof
    fix f assume f: "f \<in> set fs"
    have "tree s' (S @ [f]) = tree s (S @ [f])"
      using t' [of "S @ [f]"] rs(2) srcf(2) [OF f] by (auto simp: A_def add_dirs_old)
    moreover have "tree s' (D @ [f]) = tree s (S @ [f])" using t' [of "D @ [f]"] f by auto
    ultimately show "simple_name f \<and> is_file (tree s') (S @ [f]) \<and> \<not> is_dir (tree s') (D @ [f])"
      using fs f srcf(1) [OF f] is_file_not_dir [of "tree s'" "D @ [f]"] by (simp add: is_file_def)
  qed
  moreover have "no_file_on (tree s') (start_loc s' dd) (path_comps dd)"
    using pre st by (auto simp: no_file_on_iff dest: is_dir_not_nondir)
  moreover have "\<forall>k. 0 < k \<longrightarrow> k \<le> length (path_comps dd) \<longrightarrow> tree s' (start_loc s dd @ take k (path_comps dd)) \<noteq> None"
    using pre by (auto simp: is_dir_Some)
  ultimately show ?thesis using inv st res rm(1) rs(1) r(3) s' by (simp add: fs_inv_def)
qed

subsection \<open>Directories\<close>

text \<open>No statement of the script changes or removes a directory, whatever the
  outcome.\<close>

lemma install_copies_keeps_dir:
  "fs_inv s \<Longrightarrow> tree s x = Some (Dir d) \<Longrightarrow> tree (snd (install_copies argv s)) x = Some (Dir d)"
proof -
  assume inv: "fs_inv s" and x: "tree s x = Some (Dir d)"
  let ?P = "\<lambda>s'. fs_inv s' \<and> tree s' x = Some (Dir d)"
  have cp: "?P (snd (shutil_copy a b s'))" if "?P s'" for a b s'
    using that shutil_copy_keeps [of s' a b] shutil_copy_keeps_dir [of s' x d a b]
    by (simp add: fs_inv_def)
  have ex: "?P (snd (install_extras argv fs s'))" if "?P s'" for fs s'
    using that
  proof (induction fs arbitrary: s')
    case Nil
    then show ?case by simp
  next
    case (Cons f fs)
    show ?case
      unfolding install_extras.simps
      by (intro bindE_keeps [where P = ?P] cp) (use Cons in simp_all)
  qed
  have "?P (snd (install_copies argv s))"
    unfolding install_copies_def
    by (intro bindE_keeps [where P = ?P] cp ex) (use inv x in simp_all)
  then show ?thesis by simp
qed

lemma install_keeps_dir:
  assumes inv: "fs_inv s" and x: "tree s x = Some (Dir d)"
  shows "tree (snd (install argv s)) x = Some (Dir d)"
proof (cases "2 < length argv")
  case False
  then show ?thesis using x by (simp add: install_def argv_get_def)
next
  case True
  obtain r s1 where mk: "makedirs (argv ! 2) 511 True s = (r, s1)" by (cases "makedirs (argv ! 2) 511 True s")
  have x1: "tree s1 x = Some (Dir d)" using makedirs_keeps_dir [OF x, of "argv ! 2" 511 True] mk by simp
  have inv1: "fs_inv s1" using makedirs_keeps_inv [OF inv, of "argv ! 2"] mk by simp
  show ?thesis
  proof (cases r)
    case (Inl e)
    then show ?thesis using True mk x1 by (simp add: install_def)
  next
    case (Inr u)
    then show ?thesis using True mk install_copies_keeps_dir [OF inv1 x1] by (simp add: install_def)
  qed
qed

subsection \<open>Modes of new directories\<close>

text \<open>Under a umask that leaves the owner bits, a directory that \<open>os.makedirs\<close>
  creates has a mode within \<open>0o777\<close> that its owner may read, write and search.\<close>

lemma new_dir_mode:
  "umask_ok s \<Longrightarrow> (511 AND NOT (umask s) AND 1023 :: mode) \<le> 511 \<and> owner_rwx (511 AND NOT (umask s) AND 1023)"
proof
  show "(511 AND NOT (umask s) AND 1023 :: mode) \<le> 511" by (rule word_and_le2)
  assume "umask_ok s"
  then have "node_perm_ok (Dir (511 AND NOT (umask s) AND 1023))"
    by (rule node_perm_ok_Dir_new) simp_all
  then show "owner_rwx (511 AND NOT (umask s) AND 1023)"
    by (simp add: owner_rwx_def can_read_bit can_write_bit can_exec_bit)
qed

text \<open>The run reaches an extra \<open>f\<close> of the command line after the extras
  \<open>pre\<close> before it were copied: line 5, line 6 and the loop up to \<open>f\<close>
  succeeded, the source directory still resolves, and the entries of the source
  directory that existed are unchanged.\<close>

lemma install_at_extra:
  assumes wf: "wf_fs s" and perm: "perm_ok s" "umask_ok s"
    and argv: "argv = script # sd # dd # ms # n # pre @ f # post"
    and dd: "path_comps dd \<noteq> []" "plain_comps (path_comps dd)"
      "no_file_on (tree s) (start_loc s dd) (path_comps dd)"
    and D: "D = start_loc s dd @ path_comps dd"
    and rm: "resolve s ms = Inr M" "tree s M = Some (File c m)" "M \<noteq> D @ [n]"
    and n: "simple_name n" "\<not> is_dir (tree s) (D @ [n])"
    and s2: "s2 = s\<lparr>tree := (add_dirs (tree s) (start_loc s dd) (path_comps dd) (511 AND NOT (umask s) AND 1023))
                              (D @ [n] \<mapsto> File c m)\<rparr>"
    and s3: "s3 = s2\<lparr>tree := copy_all (tree s2) S D pre\<rparr>"
    and rs: "resolve s sd = Inr S" "is_dir (tree s) S" "S \<noteq> D"
    and pre: "\<forall>g\<in>set pre. simple_name g \<and> is_file (tree s) (S @ [g]) \<and> \<not> is_dir (tree s) (D @ [g])"
  shows "install argv s = install_extras argv (f # post) s3 \<and> perm_ok s3 \<and>
    resolve s3 sd = Inr S \<and> is_dir (tree s3) S \<and>
    (\<forall>g. tree s (S @ [g]) \<noteq> None \<longrightarrow> tree s3 (S @ [g]) = tree s (S @ [g]))"
proof -
  note ex = install_to_extras [OF wf perm argv dd D rm n s2]
  have loop: "install_extras argv pre s2 = (Inr (), s3)"
    using install_extras_from [OF wf perm argv dd D rm n s2 rs(1,3) pre] by (simp add: s3)
  have inv2: "fs_inv s2" using ex perm(2) by (simp add: fs_inv_def s2 umask_ok_def)
  have perm3: "perm_ok s3" using install_extras_keeps [OF inv2, of argv pre] loop by (simp add: fs_inv_def)
  have nd: "\<forall>g\<in>set pre. \<not> is_dir (tree s2) (D @ [g])"
    using pre D by (auto simp: s2 add_dirs_beyond is_dir_def)
  have S3: "resolve s3 sd = Inr S"
    using resolve_copy_all [OF rs(3) nd] ex rs(1) by (simp add: s3)
  have Sn: "S \<noteq> D @ [n]" using rs(2) n(2) by auto
  have "tree s S \<noteq> None" using rs(2) by (auto simp: is_dir_Some)
  then have "tree s2 S = tree s S" using Sn by (simp add: s2 add_dirs_old)
  moreover obtain mS where "tree s S = Some (Dir mS)"
    using rs(2) by (auto simp: is_dir_def split: option.splits inode.splits)
  ultimately have dS: "is_dir (tree s3) S"
    using copy_all_dirs [OF rs(3) nd] by (simp add: s3 is_dir_def)
  have keep: "tree s3 (S @ [g]) = tree s (S @ [g])" if "tree s (S @ [g]) \<noteq> None" for g
    using that rs(3) by (simp add: s3 s2 copy_all_outside add_dirs_old)
  have "install argv s = install_extras argv (f # post) s3"
    using ex loop argv by (simp add: install_extras_append)
  then show ?thesis using perm3 S3 dS keep by blast
qed

end
