(* ===== verification/Report.thy ===== *)
theory Report
  imports Install
begin

text \<open>
  What the process leaves behind when the installer fails: CPython prints the
  traceback of the uncaught exception to standard error and exits with status
  1.  The model gives the last line of that traceback, which
  \<open>traceback.format_exception_only\<close> writes as the class name (qualified by
  its module outside the builtins), a colon and \<open>str(exc)\<close>:
  \<^item> an \<open>OSError\<close> with a file name prints
    \<open>[Errno n] strerror: repr(filename)\<close> (\<open>OSError.__str__\<close>);
  \<^item> \<open>shutil.SameFileError\<close>, \<open>shutil.SpecialFileError\<close> and the
    \<open>FileNotFoundError\<close> of \<open>copyfile\<close> print the message \<open>Lib/shutil.py\<close>
    formats: \<open>"{!r} and {!r} are the same file"\<close>, \<open>"`%s` is a named pipe"\<close>,
    \<open>f'Directory does not exist: {dst}'\<close>;
  \<^item> the \<open>IndexError\<close> of \<open>sys.argv[i]\<close> prints \<open>list index out of range\<close>.
  \<open>repr\<close> of a string is \<open>unicode_repr\<close> of \<open>Objects/unicodeobject.c\<close>: single
  quotes unless the string holds a single quote and no double quote; the
  quote and the backslash escaped; tab, newline and carriage return as
  \<open>\t\<close>, \<open>\n\<close>, \<open>\r\<close>; other non-printable characters as \<open>\xNN\<close>.  A
  \<open>char\<close> of the model is read as the code point below 256 it encodes (Latin-1);
  the earlier lines of the traceback (file names and line numbers of the
  interpreter's frames) are not modelled.
\<close>

subsection \<open>Characters\<close>

definition backslash :: char where "backslash = CHR 0x5C"
definition squote :: char where "squote = CHR 0x27"
definition dquote :: char where "dquote = CHR 0x22"
definition tab :: char where "tab = CHR 0x09"
definition newline :: char where "newline = CHR 0x0A"
definition creturn :: char where "creturn = CHR 0x0D"

text \<open>\<open>Py_UNICODE_ISPRINTABLE\<close> below 256: the ASCII graphic characters and the
  space, and Latin-1 from 0xA1 but the soft hyphen 0xAD.\<close>

definition printable :: "char \<Rightarrow> bool" where
  "printable c \<longleftrightarrow>
     (let n = of_char c :: nat in (32 \<le> n \<and> n < 127) \<or> (161 \<le> n \<and> n \<noteq> 173))"

text \<open>\<open>Py_hexdigits\<close>: lower-case hexadecimal digits.\<close>

definition hex_digit :: "nat \<Rightarrow> char" where
  "hex_digit k = ''0123456789abcdef'' ! k"

text \<open>The escape of one character inside quotes \<open>q\<close>.\<close>

definition repr_char :: "char \<Rightarrow> char \<Rightarrow> string" where
  "repr_char q c =
     (if c = q \<or> c = backslash then [backslash, c]
      else if c = tab then [backslash, CHR ''t'']
      else if c = newline then [backslash, CHR ''n'']
      else if c = creturn then [backslash, CHR ''r'']
      else if printable c then [c]
      else [backslash, CHR ''x'', hex_digit (of_char c div 16), hex_digit (of_char c mod 16)])"

definition py_repr :: "string \<Rightarrow> string" where
  "py_repr s =
     (let q = (if squote \<in> set s \<and> dquote \<notin> set s then dquote else squote)
      in q # concat (map (repr_char q) s) @ [q])"

text \<open>The escapes read back, as Python's parser reads the literal \<open>repr\<close>
  prints: the digits of \<open>\xNN\<close>, and the body up to the closing quote.\<close>

definition hex_val :: "char \<Rightarrow> nat option" where
  "hex_val c =
     (let n = of_char c :: nat
      in if 48 \<le> n \<and> n \<le> 57 then Some (n - 48)
         else if 97 \<le> n \<and> n \<le> 102 then Some (n - 87) else None)"

fun repr_decode :: "char \<Rightarrow> string \<Rightarrow> string option" where
  "repr_decode q [] = None"
| "repr_decode q (c # cs) =
     (if c = q then (if cs = [] then Some [] else None)
      else if c \<noteq> backslash then map_option (Cons c) (repr_decode q cs)
      else (case cs of
              [] \<Rightarrow> None
            | d # ds \<Rightarrow>
                if d = CHR ''t'' then map_option (Cons tab) (repr_decode q ds)
                else if d = CHR ''n'' then map_option (Cons newline) (repr_decode q ds)
                else if d = CHR ''r'' then map_option (Cons creturn) (repr_decode q ds)
                else if d = CHR ''x'' then
                  (case ds of
                     h1 # h2 # r \<Rightarrow>
                       (case (hex_val h1, hex_val h2) of
                          (Some a, Some b) \<Rightarrow> map_option (Cons (char_of (16 * a + b))) (repr_decode q r)
                        | _ \<Rightarrow> None)
                   | _ \<Rightarrow> None)
                else map_option (Cons d) (repr_decode q ds)))"

definition py_unrepr :: "string \<Rightarrow> string option" where
  "py_unrepr s =
     (case s of
        q # body \<Rightarrow> if q = squote \<or> q = dquote then repr_decode q body else None
      | [] \<Rightarrow> None)"

subsection \<open>The last line of the traceback\<close>

text \<open>The errno numbers of Linux and the texts of \<open>strerror\<close> (glibc).\<close>

primrec errno_code :: "errno \<Rightarrow> string" where
  "errno_code ENOENT = ''2''"
| "errno_code ENOTDIR = ''20''"
| "errno_code EISDIR = ''21''"
| "errno_code EEXIST = ''17''"
| "errno_code EACCES = ''13''"
| "errno_code ENXIO = ''6''"

primrec strerror :: "errno \<Rightarrow> string" where
  "strerror ENOENT = ''No such file or directory''"
| "strerror ENOTDIR = ''Not a directory''"
| "strerror EISDIR = ''Is a directory''"
| "strerror EEXIST = ''File exists''"
| "strerror EACCES = ''Permission denied''"
| "strerror ENXIO = ''No such device or address''"

text \<open>\<open>OSError.__str__\<close> with an errno, its text and a file name.\<close>

definition os_error_str :: "errno \<Rightarrow> string \<Rightarrow> string" where
  "os_error_str e p = ''[Errno '' @ errno_code e @ ''] '' @ strerror e @ '': '' @ py_repr p"

primrec exc_line :: "pyexc \<Rightarrow> string" where
  "exc_line (FileNotFoundError p) = ''FileNotFoundError: '' @ os_error_str ENOENT p"
| "exc_line (FileExistsError p) = ''FileExistsError: '' @ os_error_str EEXIST p"
| "exc_line (NotADirectoryError p) = ''NotADirectoryError: '' @ os_error_str ENOTDIR p"
| "exc_line (IsADirectoryError p) = ''IsADirectoryError: '' @ os_error_str EISDIR p"
| "exc_line (PermissionError p) = ''PermissionError: '' @ os_error_str EACCES p"
| "exc_line (SameFileError a b) =
     ''shutil.SameFileError: '' @ py_repr a @ '' and '' @ py_repr b @ '' are the same file''"
| "exc_line (SpecialFileError p) = ''shutil.SpecialFileError: `'' @ p @ ''` is a named pipe''"
| "exc_line (DirectoryDoesNotExist p) = ''FileNotFoundError: Directory does not exist: '' @ p"
| "exc_line (OSError e p) = ''OSError: '' @ os_error_str e p"
| "exc_line IndexError = ''IndexError: list index out of range''"

text \<open>What a run of the script leaves besides the file system: the exit status
  and, when it fails, the last line written to standard error.\<close>

definition report :: "string list \<Rightarrow> fsys \<Rightarrow> nat \<times> string option" where
  "report argv s =
     (case install argv s of
        (Inr u, s') \<Rightarrow> (0, None)
      | (Inl e, s') \<Rightarrow> (1, Some (exc_line e)))"

subsection \<open>The round trip of \<open>repr\<close>\<close>

lemma hex_val_digit: "k < 16 \<Longrightarrow> hex_val (hex_digit k) = Some k"
proof -
  assume "k < 16"
  then have "k = 0 \<or> k = 1 \<or> k = 2 \<or> k = 3 \<or> k = 4 \<or> k = 5 \<or> k = 6 \<or> k = 7 \<or>
             k = 8 \<or> k = 9 \<or> k = 10 \<or> k = 11 \<or> k = 12 \<or> k = 13 \<or> k = 14 \<or> k = 15" by arith
  then show ?thesis by (elim disjE) (simp_all add: hex_digit_def hex_val_def)
qed

lemma char_of_div_mod: "char_of (16 * (of_char c div 16) + of_char c mod (16::nat)) = c"
  by simp

lemma repr_decode_char:
  assumes q: "q = squote \<or> q = dquote"
  shows "repr_decode q (repr_char q c @ rest) = map_option (Cons c) (repr_decode q rest)"
proof -
  have qb: "q \<noteq> backslash" "q \<noteq> CHR ''t''" "q \<noteq> CHR ''n''" "q \<noteq> CHR ''r''" "q \<noteq> CHR ''x''"
    using q by (auto simp: squote_def dquote_def backslash_def)
  have n: "of_char c div 16 < (16::nat)" "of_char c mod 16 < (16::nat)"
    using nat_of_char_less_256 [of c] by (simp_all add: div_less_iff_less_mult)
  show ?thesis
    using qb hex_val_digit [OF n(1)] hex_val_digit [OF n(2)] char_of_div_mod [of c]
    by (auto simp: repr_char_def backslash_def tab_def newline_def creturn_def)
qed

lemma repr_decode_body:
  "q = squote \<or> q = dquote \<Longrightarrow> repr_decode q (concat (map (repr_char q) s) @ [q]) = Some s"
  by (induction s) (simp_all add: repr_decode_char)

lemma newline_notin_errno: "newline \<notin> set (errno_code e) \<and> newline \<notin> set (strerror e)"
  by (cases e) (simp_all add: newline_def)

lemma newline_notin_repr: "newline \<notin> set (py_repr s)"
proof -
  have "newline \<notin> set (repr_char q c)" if "q = squote \<or> q = dquote" for q c
  proof -
    have "newline \<noteq> hex_digit k" if "k < 16" for k
    proof -
      have "k = 0 \<or> k = 1 \<or> k = 2 \<or> k = 3 \<or> k = 4 \<or> k = 5 \<or> k = 6 \<or> k = 7 \<or>
             k = 8 \<or> k = 9 \<or> k = 10 \<or> k = 11 \<or> k = 12 \<or> k = 13 \<or> k = 14 \<or> k = 15"
        using \<open>k < 16\<close> by arith
      then show ?thesis by (elim disjE) (simp_all add: hex_digit_def newline_def)
    qed
    moreover have "of_char c div 16 < (16::nat)" "of_char c mod 16 < (16::nat)"
      using nat_of_char_less_256 [of c] by (simp_all add: div_less_iff_less_mult)
    ultimately show ?thesis using that
      by (auto simp: repr_char_def printable_def newline_def backslash_def squote_def dquote_def
          tab_def creturn_def)
  qed
  then show ?thesis by (auto simp: py_repr_def Let_def squote_def dquote_def newline_def)
qed

text \<open>C24: \<open>repr\<close> round trip.  Every string, printed with \<open>repr\<close> as the
  messages of \<open>OSError\<close> and \<open>SameFileError\<close> print file names, is read back
  exactly: the quoting loses nothing.\<close>

theorem py_repr_roundtrip: "py_unrepr (py_repr s) = Some s"
  by (simp add: py_repr_def py_unrepr_def Let_def repr_decode_body)

text \<open>C25: the error report is one line when it quotes its path.  The last line
  of the traceback holds a newline only when the exception prints a path as it
  is, which \<open>SpecialFileError\<close> (\<open>"`%s` ..."\<close>) and the \<open>FileNotFoundError\<close>
  of \<open>copyfile\<close> (\<open>f'...{dst}'\<close>) do, and the path holds one; every other
  message goes through \<open>repr\<close>, which escapes it.\<close>

theorem exc_line_newline:
  "newline \<in> set (exc_line e) \<longleftrightarrow>
     (\<exists>p. (e = SpecialFileError p \<or> e = DirectoryDoesNotExist p) \<and> newline \<in> set p)"
  by (cases e) (simp_all add: os_error_str_def newline_notin_repr newline_notin_errno,
      simp_all add: newline_def)

end
