(* ===== verification/Spec2Isabelle.thy ===== *)
theory Spec2Isabelle
  imports Report
begin

text \<open>
  Verification of \<open>src/install_bindist.py\<close>, the installer of the binary
  distribution of plpgsql_check.  Run as
  \<open>python3 install_bindist.py source_dir dest_dir main_src main_dest_name extra...\<close>,
  the script creates \<open>dest_dir\<close> with \<open>os.makedirs(..., exist_ok=True)\<close>
  (line 5), copies \<open>main_src\<close> to \<open>dest_dir/main_dest_name\<close> with
  \<open>shutil.copy\<close> (line 6) and copies each \<open>source_dir/f\<close> to \<open>dest_dir/f\<close>
  (lines 8--9).  Its behaviour is that of the library functions it calls, on
  the file system of the kernel, so the development models those as well, from
  CPython 3.12 (\<open>Lib/os.py\<close>, \<open>Lib/posixpath.py\<close>, \<open>Lib/shutil.py\<close>) and
  Linux system-call semantics.

  Theories, in import order:
  \<^item> \<open>Prelude\<close>: the exception-and-state monad (\<open>returnE\<close>, \<open>raiseE\<close>,
    \<open>bindE\<close>) in which every Python statement is a function from the file
    system to an outcome and a new file system; the state survives an
    exception, because nothing is rolled back.
  \<^item> \<open>Paths\<close>: \<open>os.path.join\<close> (\<open>pjoin\<close>), \<open>os.path.split\<close> (\<open>psplit\<close>),
    \<open>os.path.basename\<close>, and the kernel's reading of a path as components
    (\<open>path_comps\<close>); the round trip \<open>psplit (pjoin a n) = (a, n)\<close>.
  \<^item> \<open>Posix\<close>: the file system as a map from locations (lists of names) to
    inodes (\<open>File bytes mode\<close>, \<open>Dir mode\<close>, modes as 32-bit words), with the
    current directory and the umask (\<open>record fsys\<close>); path walk with search
    permission and the kernel's rule for a trailing separator; \<open>stat\<close>,
    \<open>mkdir\<close>, \<open>open\<close>+\<open>read\<close>, \<open>open\<close>+\<open>write\<close> with \<open>O_CREAT|O_TRUNC\<close>
    (in one step, \<open>sys_write\<close>, and as \<open>sys_open_wb\<close> followed by
    \<open>write\<close>s, \<open>sys_append\<close>, proved equal), \<open>chmod\<close>; the invariants
    \<open>wf_fs\<close> (a tree whose modes fit in twelve bits), \<open>perm_ok\<close> (owner may
    read, write and search) and
    \<open>umask_ok\<close>, and their preservation by each call.
  \<^item> \<open>PyOs\<close>: the exceptions (\<open>pyexc\<close>), \<open>os.stat\<close>, \<open>os.path.exists\<close>,
    \<open>os.path.isdir\<close>, \<open>os.mkdir\<close>, \<open>os.chmod\<close> and \<open>os.makedirs\<close>, a recursive
    \<open>function\<close> on the head of the path, terminating by the length of the path;
    it refines \<open>add_dirs\<close>, the creation of every missing directory.
  \<^item> \<open>CopyLoops\<close>: the loops that move the bytes in \<open>shutil.copyfile\<close>:
    \<open>_fastcopy_sendfile\<close> (\<open>sendfile_loop\<close>, calls of \<open>os.sendfile\<close> with
    \<open>blocksize = max(size, 2 ** 23)\<close>, each moving at most \<open>MAX_RW_COUNT\<close>
    bytes, until one returns 0) and the fallback \<open>copyfileobj\<close>
    (\<open>read_loop\<close>), each a \<open>function\<close> terminating by the bytes left, whose
    result is the list of chunks written.
  \<^item> \<open>Shutil\<close>: \<open>shutil.copy\<close>, \<open>copyfile\<close> (open the target, append the
    chunks of the \<open>sendfile\<close> loop), \<open>copymode\<close> and the same-file
    check; a copy of a readable file to a target that is not a directory puts
    the source's bytes and mode there and changes nothing else.
  \<^item> \<open>Install\<close>: the script, split as the source is: line 5 and then
    \<open>install_copies\<close> for lines 6--9, whose loop is \<open>install_extras\<close>;
    \<open>argv_get\<close> for \<open>sys.argv[i]\<close>; the process exit status (\<open>run\<close>); the
    states reached by successive runs (\<open>runs_from\<close>, an inductive relation);
    the abstract installer \<open>install_spec\<close> on trees and its copy loop
    \<open>copy_all\<close>, characterised entry by entry.  Its lemmas compose the
    components: \<open>makedirs_dest\<close> (line 5), \<open>install_to_extras\<close> (lines 5--6),
    \<open>install_extras_from\<close> (the loop), \<open>install_runs\<close> (the whole script),
    \<open>install_keeps\<close> and \<open>install_keeps_dir\<close> (every outcome keeps the
    invariants and every directory).
  \<^item> \<open>Report\<close>: what a failing run prints: the last line of the traceback
    (\<open>exc_line\<close>: class name and \<open>str(exc)\<close>, with \<open>strerror\<close>, the errno
    number and \<open>repr\<close> of the path, \<open>py_repr\<close>, CPython's \<open>unicode_repr\<close>)
    and the exit status (\<open>report\<close>); \<open>py_unrepr\<close> reads a \<open>repr\<close> back.
  \<^item> this theory: the properties of the whole script, with witnesses on the
    scenario of the specification (\<open>ex_fs\<close>, \<open>ex_argv\<close>) and variants of it.

  The properties.  C1 refines the script to \<open>install_spec\<close>; C2 (contents),
  C3 (idempotence) and C4 (frame) are the testable properties of the
  specification, under preconditions that are named in each statement: the
  working permissions (\<open>fs_inv\<close>), a destination path of plain names with no
  regular file on it, regular source files, a source directory other than the
  destination, no copy target that is a directory.  C5 (the destination exists
  after any outcome), C6 (invariant of any sequence of runs, by rule induction
  on \<open>runs_from\<close>) and C16 (bounds on the 32-bit modes of new directories)
  hold more widely.  C7--C9 and C11--C12 are the error paths: a missing extra,
  a destination that is a file, an incomplete command line, source and
  destination the same, an absolute extra name.  C10 and C13 show where the
  code departs from the specification: a main name that is a directory
  receives the copy inside it, and a main file inside the destination that an
  extra overwrites makes the second run install other contents than the first
  (C3 excludes that case by its last hypothesis).  C14 and C15 are properties
  of \<open>os.path\<close> and \<open>os.makedirs\<close>.  C17 shows the \<open>sendfile\<close> loop
  equivalent to \<open>copyfileobj\<close> (the same chunks for the matching buffer
  length, the same bytes for any), C18 counts its calls, which proves that it
  ends, and C19 is the boundary case of an empty \<open>dest_dir\<close>.  C20 and C21 are
  the paths that end with a separator: a destination that names no directory
  (\<open>FileNotFoundError('Directory does not exist: ...')\<close>, from the \<open>EISDIR\<close>
  of \<open>open\<close>) and an extra written
  \<open>f/\<close> for a regular file (\<open>NotADirectoryError\<close>); the lemma
  \<open>install_at_extra\<close> of \<open>Install\<close> carries C7 and C21 to the extra that
  fails.  C22 and C23 are the named pipes: \<open>copyfile\<close> refuses a pipe as
  source or as destination with \<open>SpecialFileError\<close> before it opens anything
  (an open of a pipe would wait for a peer).  The working permissions
  \<open>perm_ok\<close> of C1--C21 exclude named pipes, so those claims speak of trees of
  regular files and directories.  C24 and C25 are the error report:
  \<open>repr\<close> loses nothing (a round trip with its reader), and the last line is
  a single line unless a message prints a path with a newline as it is.  The
  messages of C19--C21 are those that CPython 3.12 prints for the script run
  on the same scenarios.  C26 is the liveness of the copy: the \<open>sendfile\<close>
  loop, as the state machine \<open>sendfile_step\<close> of \<open>CopyLoops\<close>, reaches the
  end of the file from offset 0 and stops there.

  No loop of the model needs fuel: \<open>walk\<close>, \<open>add_dirs\<close>, \<open>install_extras\<close>
  and \<open>copy_all\<close> recurse on lists, \<open>makedirs\<close> on the length of its argument,
  \<open>sendfile_loop\<close> and \<open>read_loop\<close> on the bytes not yet copied.  Evaluation
  of \<open>copyfile\<close> goes through its one-shot form (a \<open>code\<close> equation), so
  that a run of the model evaluated by \<open>code_simp\<close> does not unfold the
  8 MiB block size in unary arithmetic.

  Not modelled: symbolic and hard links (\<open>shutil.copy\<close> follows them; the
  model has none, so \<open>_samefile\<close> compares locations), ownership other than
  the owner's permission bits, device files and sockets (the check of
  \<open>copyfile\<close> looks for named pipes only), the wait of an open on a named pipe
  (given its \<open>O_NONBLOCK\<close> outcome, never reached by the installer), full disks and I/O errors in the middle of a write, concurrent
  writers, the 32-bit rule \<open>blocksize = min(blocksize, 2 ** 30)\<close> of
  \<open>_fastcopy_sendfile\<close> (the model is a 64-bit build), the fall back from
  \<open>sendfile\<close> to \<open>copyfileobj\<close> on \<open>ENOTSOCK\<close>/\<open>ENOSYS\<close> (never raised for
  the regular files of the model; C18 shows that the fallback writes the same
  bytes), bytes paths, the lines of the traceback before the last (the
  interpreter's frames, file names and line numbers), and characters beyond
  Latin-1 in \<open>repr\<close> (a \<open>char\<close> of the model is a code point below 256).
  The kernel model sets no limit on the length of a name (\<open>NAME_MAX\<close>, 255
  bytes on Linux) or of a path (\<open>PATH_MAX\<close>, 4096 bytes), so \<open>ENAMETOOLONG\<close>
  is never raised: the claims hold for names and paths within those limits.
  The theorems of the whole script assume the working permissions
  \<open>perm_ok\<close>; runs on read-only files (for instance a second run after a
  read-only \<open>main_src\<close> was copied with its mode, which fails with
  \<open>PermissionError\<close> on the main target) are defined by the model but not
  the subject of a theorem.
\<close>

unbundle bit_operations_syntax


text \<open>The scenario of the specification: the working directory \<open>/work\<close>
  holds \<open>source/build/app\<close> (mode \<open>0o755\<close>), \<open>source/mainfile.txt\<close> and
  \<open>source/README\<close> (mode \<open>0o644\<close>); the umask is \<open>0o022\<close>; the command line is
  \<open>install source/ out/ source/build/app app mainfile.txt README\<close>.\<close>

definition ex_fs :: fsys where
  "ex_fs = \<lparr>tree = [[] \<mapsto> Dir 493, [''work''] \<mapsto> Dir 493, [''work'', ''source''] \<mapsto> Dir 493,
     [''work'', ''source'', ''build''] \<mapsto> Dir 493,
     [''work'', ''source'', ''build'', ''app''] \<mapsto> File [1, 2, 3] 493,
     [''work'', ''source'', ''mainfile.txt''] \<mapsto> File [4] 420,
     [''work'', ''source'', ''README''] \<mapsto> File [5, 6] 420],
   cwd = [''work''], umask = 18\<rparr>"

definition ex_argv :: "string list" where
  "ex_argv = [''install'', ''source/'', ''out/'', ''source/build/app'', ''app'', ''mainfile.txt'', ''README'']"

definition ex_D :: loc where "ex_D = [''work'', ''out'']"
definition ex_S :: loc where "ex_S = [''work'', ''source'']"
definition ex_M :: loc where "ex_M = [''work'', ''source'', ''build'', ''app'']"

definition ex_argv_missing :: "string list" where
  "ex_argv_missing = [''install'', ''source/'', ''out/'', ''source/build/app'', ''app'', ''mainfile.txt'', ''NEWS'', ''README'']"

definition ex_out_file :: fsys where
  "ex_out_file = ex_fs\<lparr>tree := (tree ex_fs)([''work'', ''out''] \<mapsto> File [] 420)\<rparr>"

definition ex_out :: fsys where
  "ex_out = ex_fs\<lparr>tree := (tree ex_fs)([''work'', ''out''] \<mapsto> Dir 493,
                                      [''work'', ''out'', ''README''] \<mapsto> File [9] 420)\<rparr>"

definition ex_out_app :: fsys where
  "ex_out_app = ex_out\<lparr>tree := (tree ex_out)([''work'', ''out'', ''app''] \<mapsto> Dir 493)\<rparr>"

definition ex_argv_main_in_dest :: "string list" where
  "ex_argv_main_in_dest = [''install'', ''source/'', ''out/'', ''out/README'', ''app2'', ''README'']"

text \<open>The scenario with the last extra written \<open>README/\<close>.\<close>

definition ex_argv_sep :: "string list" where
  "ex_argv_sep = [''install'', ''source/'', ''out/'', ''source/build/app'', ''app'', ''mainfile.txt'', ''README/'']"

text \<open>The scenario with a named pipe \<open>source/pipe\<close> (mode \<open>0o644\<close>) in the
  source directory.\<close>

definition ex_fifo_fs :: fsys where
  "ex_fifo_fs = ex_fs\<lparr>tree := (tree ex_fs)([''work'', ''source'', ''pipe''] \<mapsto> Fifo 420)\<rparr>"

lemmas ex_simps = ex_fs_def ex_argv_def wf_fs_def perm_ok_def umask_ok_def is_dir_def is_file_def is_nondir_def
  simple_name_def can_read_def can_write_def can_exec_def resolve_def start_loc_def
  startswith_sep_def endswith_sep_def path_comps_def plain_comps_def

section \<open>The installer against its contract\<close>

text \<open>C1: refinement.  From a well-formed state with the working permissions,
  when the destination path is made of plain names with no regular file along
  it, the main file and every extra are regular files, the source directory is
  not the destination and no target is a directory or the main file itself,
  the script succeeds and leaves the tree the abstract installer computes:
  the missing directories of the destination created with mode
  \<open>0o777 & ~umask\<close>, the main file copied under its new name, then every
  extra copied, in order.\<close>

theorem install_refines:
  assumes "wf_fs s" "perm_ok s" "umask_ok s"
    and "argv = a0 # sd # dd # ms # n # fs"
    and "path_comps dd \<noteq> []" "plain_comps (path_comps dd)"
      "no_file_on (tree s) (start_loc s dd) (path_comps dd)"
    and "resolve s ms = Inr M" "is_file (tree s) M" "M \<noteq> start_loc s dd @ path_comps dd @ [n]"
    and "resolve s sd = Inr S" "S \<noteq> start_loc s dd @ path_comps dd"
    and "simple_name n" "\<not> is_dir (tree s) (start_loc s dd @ path_comps dd @ [n])"
    and "\<forall>f\<in>set fs. simple_name f \<and> is_file (tree s) (S @ [f]) \<and>
                   \<not> is_dir (tree s) (start_loc s dd @ path_comps dd @ [f])"
  shows "install argv s =
    (Inr (), s\<lparr>tree := install_spec (tree s) (start_loc s dd) (path_comps dd)
                          (511 AND NOT (umask s) AND 1023) M n S fs\<rparr>)"
proof -
  obtain c m where M: "tree s M = Some (File c m)" using assms(9) is_file_Some by blast
  have "add_dirs (tree s) (start_loc s dd) (path_comps dd) (511 AND NOT (umask s) AND 1023) M = Some (File c m)"
    using M by (simp add: add_dirs_old)
  then show ?thesis
    using install_runs [OF assms(1-7) refl assms(8) M _ assms(11) _ assms(13)] assms(10,12,14,15)
    by (simp add: install_spec_def copy_node_file)
qed

theorem install_refines_witness:
  "install ex_argv ex_fs =
    (Inr (), ex_fs\<lparr>tree := install_spec (tree ex_fs) [''work''] [''out''] 493
       [''work'', ''source'', ''build'', ''app''] ''app'' [''work'', ''source''] [''mainfile.txt'', ''README'']\<rparr>)"
  using install_refines [of ex_fs ex_argv "''install''" "''source/''" "''out/''" "''source/build/app''"
      "''app''" "[''mainfile.txt'', ''README'']" "[''work'', ''source'', ''build'', ''app'']"
      "[''work'', ''source'']"]
  by (simp add: ex_simps)

text \<open>C2: contents (the first testable property of the specification).  Under
  the preconditions of C1 the script succeeds, the destination is a directory,
  every extra's entry of the destination holds exactly the source directory's
  file of that name (bytes and mode), and the entry named \<open>main_dest_name\<close>
  holds the main file, unless an extra of the same name overwrote it.\<close>

theorem install_contents:
  assumes "wf_fs s" "perm_ok s" "umask_ok s"
    and "argv = script # sd # dd # ms # n # fs"
    and "path_comps dd \<noteq> []" "plain_comps (path_comps dd)"
      "no_file_on (tree s) (start_loc s dd) (path_comps dd)"
    and D: "D = start_loc s dd @ path_comps dd"
    and "resolve s ms = Inr M" "is_file (tree s) M" "M \<noteq> D @ [n]"
    and "resolve s sd = Inr S" "S \<noteq> D"
    and "simple_name n" "\<not> is_dir (tree s) (D @ [n])"
    and "\<forall>f\<in>set fs. simple_name f \<and> is_file (tree s) (S @ [f]) \<and> \<not> is_dir (tree s) (D @ [f])"
  shows "fst (install argv s) = Inr () \<and> is_dir (tree (snd (install argv s))) D \<and>
         (\<forall>f\<in>set fs. tree (snd (install argv s)) (D @ [f]) = tree s (S @ [f])) \<and>
         (n \<notin> set fs \<longrightarrow> tree (snd (install argv s)) (D @ [n]) = tree s M)"
proof -
  obtain c m where M: "tree s M = Some (File c m)" using assms(10) is_file_Some by blast
  note r = install_runs_apply [OF assms(1-8) assms(9) M assms(11-16)]
  have "is_dir (add_dirs (tree s) (start_loc s dd) (path_comps dd) (511 AND NOT (umask s) AND 1023)) D"
    using add_dirs_is_dir [OF assms(7) start_loc_dir [OF assms(1)], of "length (path_comps dd)"] D by simp
  then have "is_dir (tree (snd (install argv s))) D" using r(4) [of D] by (simp add: is_dir_def)
  then show ?thesis using r(1) r(4) M by auto
qed

theorem install_contents_witness:
  "fst (install ex_argv ex_fs) = Inr () \<and> is_dir (tree (snd (install ex_argv ex_fs))) ex_D \<and>
   tree (snd (install ex_argv ex_fs)) (ex_D @ [''README'']) = tree ex_fs (ex_S @ [''README'']) \<and>
   tree (snd (install ex_argv ex_fs)) (ex_D @ [''app'']) = tree ex_fs ex_M"
proof -
  have "fst (install ex_argv ex_fs) = Inr () \<and> is_dir (tree (snd (install ex_argv ex_fs))) ex_D \<and>
     (\<forall>f\<in>set [''mainfile.txt'', ''README'']. tree (snd (install ex_argv ex_fs)) (ex_D @ [f]) = tree ex_fs (ex_S @ [f])) \<and>
     (''app'' \<notin> set [''mainfile.txt'', ''README''] \<longrightarrow> tree (snd (install ex_argv ex_fs)) (ex_D @ [''app'']) = tree ex_fs ex_M)"
    by (rule install_contents [where s = ex_fs and argv = ex_argv and script = "''install''" and sd = "''source/''" and dd = "''out/''"
        and ms = "''source/build/app''" and n = "''app''" and fs = "[''mainfile.txt'', ''README'']"
        and D = ex_D and M = ex_M and S = ex_S])
       (simp_all add: ex_simps ex_D_def ex_S_def ex_M_def)
  then show ?thesis by simp
qed

text \<open>C3: idempotence.  Under the preconditions of C1, and when the main file is
  not the target of an extra, running the script a second time with the same
  arguments succeeds and leaves the file system exactly as the first run left it.\<close>

theorem install_idempotent:
  assumes "wf_fs s" "perm_ok s" "umask_ok s"
    and "argv = script # sd # dd # ms # n # fs"
    and "path_comps dd \<noteq> []" "plain_comps (path_comps dd)"
      "no_file_on (tree s) (start_loc s dd) (path_comps dd)"
    and D: "D = start_loc s dd @ path_comps dd"
    and "resolve s ms = Inr M" "is_file (tree s) M" "M \<noteq> D @ [n]"
    and "resolve s sd = Inr S" "S \<noteq> D"
    and "simple_name n" "\<not> is_dir (tree s) (D @ [n])"
    and "\<forall>f\<in>set fs. simple_name f \<and> is_file (tree s) (S @ [f]) \<and> \<not> is_dir (tree s) (D @ [f])"
    and "\<forall>f\<in>set fs. M \<noteq> D @ [f]"
  shows "install argv (snd (install argv s)) = (Inr (), snd (install argv s))"
proof -
  obtain c m where M: "tree s M = Some (File c m)" using assms(10) is_file_Some by blast
  define s' where "s' = snd (install argv s)"
  define T1 where "T1 = (add_dirs (tree s) (start_loc s dd) (path_comps dd) (511 AND NOT (umask s) AND 1023))
                           (D @ [n] \<mapsto> File c m)"
  have t': "tree s' = copy_all T1 S D fs"
    using install_runs [OF assms(1-9) M assms(11-16)] by (simp add: s'_def T1_def)
  note a = install_runs_again [OF assms(1-9) M assms(11-16) s'_def]
  have D': "D = start_loc s' dd @ path_comps dd" using a D by simp
  have "tree s' M = Some (File c m)"
    using t' assms(11,13,17) M by (simp add: copy_all_outside T1_def add_dirs_old)
  have "install argv s' = (Inr (), s'\<lparr>tree := copy_all
          ((add_dirs (tree s') (start_loc s' dd) (path_comps dd) (511 AND NOT (umask s') AND 1023))
            (D @ [n] \<mapsto> File c m)) S D fs\<rparr>)"
    using a \<open>tree s' M = Some (File c m)\<close>
    by (intro install_runs [OF _ _ _ assms(4-6) _ D' _ _ assms(11) _ assms(13,14)]) auto
  moreover have "add_dirs (tree s') (start_loc s' dd) (path_comps dd) (511 AND NOT (umask s') AND 1023) = tree s'"
    using a by (intro add_dirs_id) simp
  moreover have "copy_all ((tree s')(D @ [n] \<mapsto> File c m)) S D fs = copy_all T1 S D fs"
  proof (rule copy_all_cong [OF assms(13)])
    show "\<forall>l. (\<forall>f\<in>set fs. l \<noteq> D @ [f]) \<longrightarrow> ((tree s')(D @ [n] \<mapsto> File c m)) l = T1 l"
      using assms(13) by (auto simp: t' copy_all_outside T1_def)
    show "\<forall>f\<in>set fs. is_file ((tree s')(D @ [n] \<mapsto> File c m)) (S @ [f])"
      using a assms(13) by (simp add: is_file_def)
  qed
  ultimately show ?thesis using t' by (simp add: s'_def)
qed

theorem install_idempotent_witness:
  "install ex_argv (snd (install ex_argv ex_fs)) = (Inr (), snd (install ex_argv ex_fs))"
  by (rule install_idempotent [where s = ex_fs and argv = ex_argv and script = "''install''" and sd = "''source/''" and dd = "''out/''"
      and ms = "''source/build/app''" and n = "''app''" and fs = "[''mainfile.txt'', ''README'']"
      and D = ex_D and M = ex_M and S = ex_S])
     (simp_all add: ex_simps ex_D_def ex_S_def ex_M_def)

text \<open>C4: frame.  Under the preconditions of C1 the only entries that the script
  changes are the targets of the copies in the destination and directories it
  creates where nothing was, along the destination path: files of the
  destination and elsewhere that the copies do not name are left as they were.\<close>

theorem install_frame:
  assumes "wf_fs s" "perm_ok s" "umask_ok s"
    and "argv = script # sd # dd # ms # n # fs"
    and "path_comps dd \<noteq> []" "plain_comps (path_comps dd)"
      "no_file_on (tree s) (start_loc s dd) (path_comps dd)"
    and D: "D = start_loc s dd @ path_comps dd"
    and "resolve s ms = Inr M" "is_file (tree s) M" "M \<noteq> D @ [n]"
    and "resolve s sd = Inr S" "S \<noteq> D"
    and "simple_name n" "\<not> is_dir (tree s) (D @ [n])"
    and "\<forall>f\<in>set fs. simple_name f \<and> is_file (tree s) (S @ [f]) \<and> \<not> is_dir (tree s) (D @ [f])"
  shows "\<forall>l. tree (snd (install argv s)) l \<noteq> tree s l \<longrightarrow>
           (\<exists>x\<in>set (n # fs). l = D @ [x]) \<or>
           (tree s l = None \<and> (\<exists>k. 0 < k \<and> k \<le> length (path_comps dd) \<and>
                                 l = start_loc s dd @ take k (path_comps dd)))"
proof -
  obtain c m where M: "tree s M = Some (File c m)" using assms(10) is_file_Some by blast
  note r = install_runs_apply [OF assms(1-8) assms(9) M assms(11-16)]
  show ?thesis using r(4) by (auto simp: add_dirs_apply split: if_splits)
qed

theorem install_frame_witness:
  "tree (snd (install ex_argv ex_fs)) [''work'', ''source'', ''README''] = tree ex_fs [''work'', ''source'', ''README'']"
proof -
  have "\<forall>l. tree (snd (install ex_argv ex_fs)) l \<noteq> tree ex_fs l \<longrightarrow>
     (\<exists>x\<in>set [''app'', ''mainfile.txt'', ''README'']. l = ex_D @ [x]) \<or>
     (tree ex_fs l = None \<and> (\<exists>k. 0 < k \<and> k \<le> length (path_comps ''out/'') \<and>
        l = start_loc ex_fs ''out/'' @ take k (path_comps ''out/'')))"
    by (rule install_frame [where s = ex_fs and argv = ex_argv and script = "''install''" and sd = "''source/''" and dd = "''out/''"
        and ms = "''source/build/app''" and n = "''app''" and fs = "[''mainfile.txt'', ''README'']"
        and D = ex_D and M = ex_M and S = ex_S])
       (simp_all add: ex_simps ex_D_def ex_S_def ex_M_def)
  then have "tree (snd (install ex_argv ex_fs)) [''work'', ''source'', ''README''] \<noteq> tree ex_fs [''work'', ''source'', ''README''] \<longrightarrow>
     (\<exists>x\<in>set [''app'', ''mainfile.txt'', ''README'']. [''work'', ''source'', ''README''] = ex_D @ [x]) \<or>
     (tree ex_fs [''work'', ''source'', ''README''] = None \<and> (\<exists>k. 0 < k \<and> k \<le> length (path_comps ''out/'') \<and>
        [''work'', ''source'', ''README''] = start_loc ex_fs ''out/'' @ take k (path_comps ''out/'')))"
    by (rule spec)
  then show ?thesis by (auto simp: ex_D_def ex_fs_def)
qed

text \<open>C5: the destination exists.  Whatever the outcome of the run, even when a
  later copy fails, every directory along a destination path of plain names
  with no regular file on it exists after the run: \<open>os.makedirs\<close> creates
  the missing ones and no later statement removes or changes a directory.\<close>

theorem install_creates_dest:
  assumes inv: "fs_inv s" and len: "2 < length argv"
    and dd: "path_comps (argv ! 2) \<noteq> []" "plain_comps (path_comps (argv ! 2))"
      "no_file_on (tree s) (start_loc s (argv ! 2)) (path_comps (argv ! 2))"
  shows "\<forall>k\<le>length (path_comps (argv ! 2)).
           is_dir (tree (snd (install argv s))) (start_loc s (argv ! 2) @ take k (path_comps (argv ! 2)))"
proof (intro allI impI)
  fix k assume k: "k \<le> length (path_comps (argv ! 2))"
  define s1 where "s1 = s\<lparr>tree := add_dirs (tree s) (start_loc s (argv ! 2)) (path_comps (argv ! 2))
                                       (511 AND NOT (umask s) AND 1023)\<rparr>"
  have wf: "wf_fs s" and perm: "perm_ok s" "umask_ok s" using inv by (simp_all add: fs_inv_def)
  note mk = makedirs_dest [OF wf perm dd refl s1_def]
  have inv1: "fs_inv s1" using mk perm(2) by (simp add: fs_inv_def s1_def umask_ok_def)
  have "is_dir (tree s1) (start_loc s (argv ! 2) @ take k (path_comps (argv ! 2)))"
    using add_dirs_is_dir [OF dd(3) start_loc_dir [OF wf] k] by (simp add: s1_def)
  then obtain d where "tree s1 (start_loc s (argv ! 2) @ take k (path_comps (argv ! 2))) = Some (Dir d)"
    by (auto simp: is_dir_def split: option.splits inode.splits)
  then have "is_dir (tree (snd (install_copies argv s1))) (start_loc s (argv ! 2) @ take k (path_comps (argv ! 2)))"
    using install_copies_keeps_dir [OF inv1] by (simp add: is_dir_def)
  then show "is_dir (tree (snd (install argv s))) (start_loc s (argv ! 2) @ take k (path_comps (argv ! 2)))"
    using mk len by (simp add: install_def)
qed

theorem install_creates_dest_witness:
  "is_dir (tree (snd (install ex_argv ex_fs))) [''work'', ''out'']"
proof -
  have "\<forall>k\<le>length (path_comps (ex_argv ! 2)).
     is_dir (tree (snd (install ex_argv ex_fs))) (start_loc ex_fs (ex_argv ! 2) @ take k (path_comps (ex_argv ! 2)))"
    by (rule install_creates_dest) (simp_all add: fs_inv_def ex_simps)
  then have "1 \<le> length (path_comps (ex_argv ! 2)) \<longrightarrow>
     is_dir (tree (snd (install ex_argv ex_fs))) (start_loc ex_fs (ex_argv ! 2) @ take 1 (path_comps (ex_argv ! 2)))"
    by (rule spec)
  then show ?thesis by (simp add: ex_argv_def start_loc_def startswith_sep_def path_comps_def ex_fs_def)
qed

text \<open>C6: invariant of successive runs.  From a well-formed state with the working
  permissions, every state that any sequence of runs reaches, whatever their
  command lines and outcomes, is again well formed with the working permissions,
  has the same working directory and umask, and still has every directory of
  the initial state, with its mode.\<close>

theorem runs_keep_inv:
  assumes "runs_from s0 s" and "fs_inv s0"
  shows "fs_inv s \<and> cwd s = cwd s0 \<and> umask s = umask s0 \<and>
         (\<forall>x d. tree s0 x = Some (Dir d) \<longrightarrow> tree s x = Some (Dir d))"
  using assms
proof (induction rule: runs_from.induct)
  case start
  then show ?case by simp
next
  case (step s argv k s')
  then have s': "s' = snd (install argv s)" by (auto simp: run_def split: prod.splits sum.splits)
  show ?case using step install_keeps [of s argv] install_keeps_dir [of s] s' by auto
qed

theorem runs_keep_inv_witness:
  "fs_inv (snd (run ex_argv ex_fs)) \<and> cwd (snd (run ex_argv ex_fs)) = cwd ex_fs \<and>
   umask (snd (run ex_argv ex_fs)) = umask ex_fs \<and>
   tree (snd (run ex_argv ex_fs)) [''work'', ''source''] = Some (Dir 493)"
proof -
  have r: "runs_from ex_fs (snd (run ex_argv ex_fs))"
    by (rule runs_from.step [OF runs_from.start, where argv = ex_argv and k = "fst (run ex_argv ex_fs)"]) simp
  have i: "fs_inv ex_fs" by (simp add: fs_inv_def ex_simps)
  have "fs_inv (snd (run ex_argv ex_fs)) \<and> cwd (snd (run ex_argv ex_fs)) = cwd ex_fs \<and>
     umask (snd (run ex_argv ex_fs)) = umask ex_fs \<and>
     (\<forall>x d. tree ex_fs x = Some (Dir d) \<longrightarrow> tree (snd (run ex_argv ex_fs)) x = Some (Dir d))"
    by (rule runs_keep_inv [OF r i])
  moreover have "tree ex_fs [''work'', ''source''] = Some (Dir 493)" by (simp add: ex_fs_def)
  ultimately show ?thesis by blast
qed

text \<open>C7: a missing extra is an error.  When an extra names no entry of the source
  directory, the run stops with \<open>FileNotFoundError\<close> naming the joined source
  path and exit status 1; the directories, the main copy and the copies of the
  extras before it stay (no rollback), and no later extra is copied.\<close>

theorem install_missing_extra:
  assumes "wf_fs s" "perm_ok s" "umask_ok s"
    and argv: "argv = script # sd # dd # ms # n # pre @ f # post"
    and dd: "path_comps dd \<noteq> []" "plain_comps (path_comps dd)"
      "no_file_on (tree s) (start_loc s dd) (path_comps dd)"
    and D: "D = start_loc s dd @ path_comps dd"
    and rm: "resolve s ms = Inr M" "tree s M = Some (File c m)" "M \<noteq> D @ [n]"
    and "simple_name n" "\<not> is_dir (tree s) (D @ [n])"
    and rs: "resolve s sd = Inr S" "is_dir (tree s) S" "S \<noteq> D"
    and pre: "\<forall>g\<in>set pre. simple_name g \<and> is_file (tree s) (S @ [g]) \<and> \<not> is_dir (tree s) (D @ [g])"
    and f: "simple_name f" "tree s (S @ [f]) = None"
      "\<forall>k. S @ [f] \<noteq> start_loc s dd @ take k (path_comps dd)"
  shows "install argv s =
      (Inl (FileNotFoundError (pjoin sd f)),
       s\<lparr>tree := copy_all ((add_dirs (tree s) (start_loc s dd) (path_comps dd) (511 AND NOT (umask s) AND 1023))
                             (D @ [n] \<mapsto> File c m)) S D pre\<rparr>) \<and>
    fst (run argv s) = 1"
proof -
  define s2 where "s2 = s\<lparr>tree := (add_dirs (tree s) (start_loc s dd) (path_comps dd) (511 AND NOT (umask s) AND 1023))
                              (D @ [n] \<mapsto> File c m)\<rparr>"
  define s3 where "s3 = s2\<lparr>tree := copy_all (tree s2) S D pre\<rparr>"
  note at = install_at_extra [OF assms(1-8) rm assms(12,13) s2_def s3_def rs pre]
  then have perm3: "perm_ok s3" and S3: "resolve s3 sd = Inr S" and "is_dir (tree s3) S" by simp_all
  moreover have "tree s3 (S @ [f]) = None"
    using f rs(3) by (simp add: s3_def s2_def copy_all_outside add_dirs_apply)
  ultimately have "resolve s3 (pjoin sd f) = Inl ENOENT"
    using resolve_target_pjoin [OF perm3 S3 _ f(1)] by (simp add: resolve_via_target)
  then have "install_extras argv (f # post) s3 = (Inl (FileNotFoundError (pjoin sd f)), s3)"
    using argv perm3 by (simp add: shutil_copy_src_missing)
  then have "install argv s = (Inl (FileNotFoundError (pjoin sd f)), s3)"
    using at by simp
  then show ?thesis by (simp add: run_def s3_def s2_def)
qed

theorem install_missing_extra_witness:
  "install ex_argv_missing ex_fs =
      (Inl (FileNotFoundError (pjoin ''source/'' ''NEWS'')),
       ex_fs\<lparr>tree := copy_all ((add_dirs (tree ex_fs) (start_loc ex_fs ''out/'') (path_comps ''out/'')
                                   (511 AND NOT (umask ex_fs) AND 1023))
                                 (ex_D @ [''app''] \<mapsto> File [1, 2, 3] 493)) ex_S ex_D [''mainfile.txt'']\<rparr>) \<and>
    fst (run ex_argv_missing ex_fs) = 1"
  by (rule install_missing_extra [where script = "''install''" and sd = "''source/''" and dd = "''out/''"
      and ms = "''source/build/app''" and n = "''app''" and pre = "[''mainfile.txt'']" and f = "''NEWS''"
      and post = "[''README'']" and M = ex_M])
     (simp_all add: ex_simps ex_D_def ex_S_def ex_M_def ex_argv_missing_def take_Cons')

text \<open>C8: a destination that is a regular file, named with or without a
  trailing separator.  \<open>os.makedirs\<close> raises \<open>FileExistsError\<close> naming
  \<open>dest_dir\<close>, nothing changes, and the exit status is 1.\<close>

theorem install_dest_is_file:
  assumes "wf_fs s" "2 < length argv" "resolve_target s (argv ! 2) = Inr (Existing l)" "is_file (tree s) l"
  shows "install argv s = (Inl (FileExistsError (argv ! 2)), s) \<and> fst (run argv s) = 1"
  using makedirs_existing_file [OF assms(1,3) is_file_nondir [OF assms(4)]] assms(2) by (simp add: install_def run_def)

theorem install_dest_is_file_witness:
  "install ex_argv ex_out_file = (Inl (FileExistsError (ex_argv ! 2)), ex_out_file) \<and> fst (run ex_argv ex_out_file) = 1"
  by (rule install_dest_is_file [where l = "[''work'', ''out'']"])
     (simp_all add: ex_out_file_def ex_simps resolve_target_def lookup_last_def)

text \<open>C9: an incomplete command line.  With two or three arguments after the
  script's name, the script still creates the destination, then fails with
  \<open>IndexError\<close> at line 6, with exit status 1.\<close>

theorem install_short_argv:
  assumes inv: "fs_inv s" and len: "2 < length argv" "length argv < 5"
    and dd: "path_comps (argv ! 2) \<noteq> []" "plain_comps (path_comps (argv ! 2))"
      "no_file_on (tree s) (start_loc s (argv ! 2)) (path_comps (argv ! 2))"
  shows "install argv s = (Inl IndexError, s\<lparr>tree := add_dirs (tree s) (start_loc s (argv ! 2))
            (path_comps (argv ! 2)) (511 AND NOT (umask s) AND 1023)\<rparr>) \<and> fst (run argv s) = 1"
proof -
  have wf: "wf_fs s" and perm: "perm_ok s" "umask_ok s" using inv by (simp_all add: fs_inv_def)
  note mk = makedirs_dest [OF wf perm dd refl refl]
  have "install_copies argv s' = (Inl IndexError, s')" for s'
    using len by (cases "length argv = 3") (simp_all add: install_copies_def argv_get_def)
  then have "install argv s = (Inl IndexError, s\<lparr>tree := add_dirs (tree s) (start_loc s (argv ! 2))
            (path_comps (argv ! 2)) (511 AND NOT (umask s) AND 1023)\<rparr>)"
    using mk len by (simp add: install_def)
  then show ?thesis by (simp add: run_def)
qed

theorem install_short_argv_witness:
  "install [''install'', ''source/'', ''out/''] ex_fs =
     (Inl IndexError, ex_fs\<lparr>tree := add_dirs (tree ex_fs) (start_loc ex_fs ([''install'', ''source/'', ''out/''] ! 2))
            (path_comps ([''install'', ''source/'', ''out/''] ! 2)) (511 AND NOT (umask ex_fs) AND 1023)\<rparr>) \<and>
   fst (run [''install'', ''source/'', ''out/''] ex_fs) = 1"
  by (rule install_short_argv) (simp_all add: fs_inv_def ex_simps)

text \<open>C10: a main name that is a directory.  When \<open>dest_dir/main_dest_name\<close> is
  an existing directory, \<open>shutil.copy\<close> puts the main file inside it, under
  the base name of \<open>main_src\<close>, instead of at \<open>dest_dir/main_dest_name\<close>.\<close>

theorem install_main_dest_dir:
  assumes wf: "wf_fs s" and perm: "perm_ok s" "umask_ok s"
    and argv: "argv = [script, sd, dd, ms, n]"
    and dd: "path_comps dd \<noteq> []" "plain_comps (path_comps dd)"
      "no_file_on (tree s) (start_loc s dd) (path_comps dd)"
    and D: "D = start_loc s dd @ path_comps dd"
    and rm: "resolve s ms = Inr M" "tree s M = Some (File c m)" "M \<noteq> D @ [n, basename ms]"
    and n: "simple_name n" "is_dir (tree s) (D @ [n])"
    and b: "simple_name (basename ms)" "\<not> is_dir (tree s) (D @ [n, basename ms])"
  shows "install argv s =
    (Inr (), s\<lparr>tree := (add_dirs (tree s) (start_loc s dd) (path_comps dd) (511 AND NOT (umask s) AND 1023))
                         (D @ [n, basename ms] \<mapsto> File c m)\<rparr>)"
proof -
  define s1 where "s1 = s\<lparr>tree := add_dirs (tree s) (start_loc s dd) (path_comps dd) (511 AND NOT (umask s) AND 1023)\<rparr>"
  note mk = makedirs_dest [OF wf perm dd D s1_def]
  have wf1: "wf_fs s1" and perm1: "perm_ok s1" and rd1: "resolve s1 dd = Inr D"
    and isd1: "is_dir (tree s1) D" using mk by simp_all
  have old: "tree s1 l = tree s l" if "tree s l \<noteq> None" for l
    using that by (simp add: s1_def add_dirs_old)
  have nd1: "is_dir (tree s1) (D @ [n])" using n(2) old by (auto simp: is_dir_Some)
  have rn: "resolve s1 (pjoin dd n) = Inr (D @ [n])"
    using resolve_pjoin [OF perm1 rd1 isd1 n(1)] nd1 by (auto simp: is_dir_Some)
  then have isdir: "path_isdir s1 (pjoin dd n)" using nd1 by (auto simp: path_isdir_iff)
  define tg where "tg = (if tree s1 (D @ [n, basename ms]) = None then Absent (D @ [n, basename ms])
                         else Existing (D @ [n, basename ms]))"
  have tl: "target_loc tg = D @ [n, basename ms]" by (simp add: tg_def)
  have t: "resolve_target s1 (pjoin (pjoin dd n) (basename ms)) = Inr tg"
    using resolve_target_pjoin [OF perm1 rn nd1 b(1)] by (simp add: tg_def)
  have ndb: "\<not> is_dir (tree s1) (D @ [n, basename ms])"
    using b(2) D by (simp add: s1_def add_dirs_beyond is_dir_def)
  have rm1: "resolve s1 ms = Inr M" using resolve_add_dirs [OF rm(1)] by (simp add: s1_def)
  have M1: "tree s1 M = Some (File c m)" using old rm(2) by simp
  have ndb': "\<not> is_dir (tree s1) (target_loc tg)" and ne: "target_loc tg \<noteq> M" using ndb rm(3) tl by simp_all
  have "shutil_copy ms (pjoin dd n) s1 =
          (Inr (pjoin (pjoin dd n) (basename ms)), s1\<lparr>tree := (tree s1)(D @ [n, basename ms] \<mapsto> File c m)\<rparr>)"
    using shutil_copy_into_dir [OF isdir not_path_isdir_target [OF t ndb']]
      shutil_copy_file [OF wf1 perm1 rm1 M1 t ndb' ne] tl pjoin_not_endswith [OF b(1)] by simp
  then show ?thesis using mk argv by (simp add: install_def install_copies_def s1_def)
qed

theorem install_main_dest_dir_witness:
  "install [''install'', ''source/'', ''out/'', ''source/build/app'', ''app''] ex_out_app =
    (Inr (), ex_out_app\<lparr>tree := (add_dirs (tree ex_out_app) (start_loc ex_out_app ''out/'') (path_comps ''out/'')
                                 (511 AND NOT (umask ex_out_app) AND 1023))
                       (ex_D @ [''app'', basename ''source/build/app''] \<mapsto> File [1, 2, 3] 493)\<rparr>)"
  by (rule install_main_dest_dir [where M = ex_M])
     (simp_all add: ex_out_app_def ex_out_def ex_simps ex_D_def ex_M_def basename_def after_last_sep_def is_sep_def)

text \<open>C11: source directory and destination are the same directory.  The first
  extra is then copied onto itself: \<open>shutil.SameFileError\<close>, after the main
  copy, with exit status 1.\<close>

theorem install_same_dir:
  assumes wf: "wf_fs s" and perm: "perm_ok s" "umask_ok s"
    and argv: "argv = script # sd # dd # ms # n # f # post"
    and dd: "path_comps dd \<noteq> []" "plain_comps (path_comps dd)"
      "no_file_on (tree s) (start_loc s dd) (path_comps dd)"
    and D: "D = start_loc s dd @ path_comps dd"
    and rm: "resolve s ms = Inr M" "tree s M = Some (File c m)" "M \<noteq> D @ [n]"
    and n: "simple_name n" "\<not> is_dir (tree s) (D @ [n])"
    and sd: "resolve s sd = Inr D"
    and f: "simple_name f" "is_file (tree s) (D @ [f])"
  shows "install argv s =
      (Inl (SameFileError (pjoin sd f) (pjoin dd f)),
       s\<lparr>tree := (add_dirs (tree s) (start_loc s dd) (path_comps dd) (511 AND NOT (umask s) AND 1023))
                   (D @ [n] \<mapsto> File c m)\<rparr>) \<and> fst (run argv s) = 1"
proof -
  define s2 where "s2 = s\<lparr>tree := (add_dirs (tree s) (start_loc s dd) (path_comps dd) (511 AND NOT (umask s) AND 1023))
                              (D @ [n] \<mapsto> File c m)\<rparr>"
  note ex = install_to_extras [OF wf perm argv dd D rm n s2_def]
  have perm2: "perm_ok s2" and rd2: "resolve s2 dd = Inr D" and isd2: "is_dir (tree s2) D"
    and rs2: "resolve s2 sd = Inr D" using ex sd by simp_all
  have "is_file (tree s2) (D @ [f])"
    using f(2) is_file_not_None [OF f(2)] by (auto simp: s2_def add_dirs_old is_file_def)
  then have ex2: "tree s2 (D @ [f]) \<noteq> None" "\<not> is_dir (tree s2) (D @ [f])"
    using is_file_not_None is_file_not_dir by blast+
  have "shutil_copy (pjoin sd f) (pjoin dd f) s2 = (Inl (SameFileError (pjoin sd f) (pjoin dd f)), s2)"
    using shutil_copy_same [OF resolve_pjoin [OF perm2 rs2 isd2 f(1) ex2(1)]
        resolve_pjoin [OF perm2 rd2 isd2 f(1) ex2(1)] ex2(2)] .
  then show ?thesis using ex argv by (simp add: run_def s2_def)
qed

theorem install_same_dir_witness:
  "install [''install'', ''out/'', ''out/'', ''source/build/app'', ''app'', ''README''] ex_out =
      (Inl (SameFileError (pjoin ''out/'' ''README'') (pjoin ''out/'' ''README'')),
       ex_out\<lparr>tree := (add_dirs (tree ex_out) (start_loc ex_out ''out/'') (path_comps ''out/'')
                            (511 AND NOT (umask ex_out) AND 1023))
                   (ex_D @ [''app''] \<mapsto> File [1, 2, 3] 493)\<rparr>) \<and>
   fst (run [''install'', ''out/'', ''out/'', ''source/build/app'', ''app'', ''README''] ex_out) = 1"
  by (rule install_same_dir [where script = "''install''" and sd = "''out/''" and dd = "''out/''"
      and ms = "''source/build/app''" and n = "''app''" and f = "''README''" and post = "[]" and M = ex_M])
     (simp_all add: ex_out_def ex_simps ex_D_def ex_M_def)

text \<open>C12: an absolute extra name.  \<open>os.path.join\<close> discards both directories
  before an absolute name, so the loop copies the file onto itself and raises
  \<open>shutil.SameFileError\<close>, changing nothing.\<close>

theorem install_extras_absolute:
  assumes "2 < length argv" "startswith_sep f" "resolve s f = Inr l" "\<not> is_dir (tree s) l"
  shows "install_extras argv (f # fs) s = (Inl (SameFileError f f), s)"
  using shutil_copy_same [OF assms(3,3,4)] assms(1,2) by (simp add: pjoin_absolute)

theorem install_extras_absolute_witness:
  "install_extras ex_argv [''/work/source/README''] ex_fs =
     (Inl (SameFileError ''/work/source/README'' ''/work/source/README''), ex_fs)"
  by (rule install_extras_absolute [where l = "[''work'', ''source'', ''README'']"])
     (simp_all add: ex_simps)

text \<open>C13: a main file inside the destination that an extra overwrites breaks
  idempotence.  Under the preconditions of C1, when \<open>main_src\<close> is the file
  \<open>dest_dir/g\<close> and \<open>g\<close> is an extra other than \<open>main_dest_name\<close>, both runs
  succeed, but the first installs under \<open>main_dest_name\<close> the old contents and
  mode of \<open>dest_dir/g\<close>, and the second those of \<open>source_dir/g\<close>, which the
  first run's loop copied over it.\<close>

theorem install_main_in_dest:
  assumes "wf_fs s" "perm_ok s" "umask_ok s"
    and "argv = script # sd # dd # ms # n # fs"
    and "path_comps dd \<noteq> []" "plain_comps (path_comps dd)"
      "no_file_on (tree s) (start_loc s dd) (path_comps dd)"
    and D: "D = start_loc s dd @ path_comps dd"
    and "resolve s ms = Inr M" "is_file (tree s) M"
    and "resolve s sd = Inr S" "S \<noteq> D"
    and "simple_name n" "\<not> is_dir (tree s) (D @ [n])"
    and "\<forall>f\<in>set fs. simple_name f \<and> is_file (tree s) (S @ [f]) \<and> \<not> is_dir (tree s) (D @ [f])"
    and g: "g \<in> set fs" "M = D @ [g]" "n \<notin> set fs"
  shows "fst (install argv s) = Inr () \<and> tree (snd (install argv s)) (D @ [n]) = tree s M \<and>
    fst (install argv (snd (install argv s))) = Inr () \<and>
    tree (snd (install argv (snd (install argv s)))) (D @ [n]) = tree s (S @ [g])"
proof -
  obtain c m where M: "tree s M = Some (File c m)" using assms(10) is_file_Some by blast
  have Mn: "M \<noteq> D @ [n]" using g by auto
  define s' where "s' = snd (install argv s)"
  note r = install_runs_apply [OF assms(1-9) M Mn assms(11-15)]
  note a = install_runs_again [OF assms(1-9) M Mn assms(11-15) s'_def]
  have D': "D = start_loc s' dd @ path_comps dd" using a D by simp
  obtain c' m' where src: "tree s (S @ [g]) = Some (File c' m')"
    using assms(15) g(1) is_file_Some by blast
  then have M': "tree s' M = Some (File c' m')" using r(4) [of M] g by (auto simp: s'_def)
  note r2 = install_runs_apply [OF _ _ _ assms(4-6) _ D' _ M' Mn _ assms(12,13)]
  have "fst (install argv s') = Inr ()" using a by (intro r2(1)) auto
  moreover have "tree (snd (install argv s')) (D @ [n]) = Some (File c' m')"
    using a g(3) by (subst r2(4)) auto
  moreover have "tree s' (D @ [n]) = Some (File c m)" using r(4) [of "D @ [n]"] g(3) by (auto simp: s'_def)
  ultimately show ?thesis using r(1) M src by (simp add: s'_def)
qed

theorem install_main_in_dest_witness:
  "fst (install ex_argv_main_in_dest ex_out) = Inr () \<and>
   tree (snd (install ex_argv_main_in_dest ex_out)) (ex_D @ [''app2'']) = tree ex_out (ex_D @ [''README'']) \<and>
   fst (install ex_argv_main_in_dest (snd (install ex_argv_main_in_dest ex_out))) = Inr () \<and>
   tree (snd (install ex_argv_main_in_dest (snd (install ex_argv_main_in_dest ex_out)))) (ex_D @ [''app2'']) =
     tree ex_out (ex_S @ [''README''])"
  by (rule install_main_in_dest [where script = "''install''" and sd = "''source/''" and dd = "''out/''"
      and ms = "''out/README''" and n = "''app2''" and fs = "[''README'']" and g = "''README''"
      and D = ex_D and M = "ex_D @ [''README'']" and S = ex_S])
     (simp_all add: ex_out_def ex_simps ex_D_def ex_S_def ex_argv_main_in_dest_def)

text \<open>C16: bounds on the modes of new directories.  Under the preconditions of C1,
  every entry that did not exist and is a directory after the run has the mode
  \<open>0o777 & ~umask\<close> as a 32-bit word, at most \<open>0o777\<close>, with the owner's read,
  write and search bits set.\<close>

theorem install_new_dir_modes:
  assumes "wf_fs s" "perm_ok s" "umask_ok s"
    and "argv = script # sd # dd # ms # n # fs"
    and "path_comps dd \<noteq> []" "plain_comps (path_comps dd)"
      "no_file_on (tree s) (start_loc s dd) (path_comps dd)"
    and D: "D = start_loc s dd @ path_comps dd"
    and "resolve s ms = Inr M" "is_file (tree s) M" "M \<noteq> D @ [n]"
    and "resolve s sd = Inr S" "S \<noteq> D"
    and "simple_name n" "\<not> is_dir (tree s) (D @ [n])"
    and "\<forall>f\<in>set fs. simple_name f \<and> is_file (tree s) (S @ [f]) \<and> \<not> is_dir (tree s) (D @ [f])"
  shows "\<forall>l d. tree s l = None \<longrightarrow> tree (snd (install argv s)) l = Some (Dir d) \<longrightarrow>
           d = 511 AND NOT (umask s) AND 1023 \<and> d \<le> 511 \<and> owner_rwx d"
proof (intro allI impI)
  fix l d assume none: "tree s l = None" and dir: "tree (snd (install argv s)) l = Some (Dir d)"
  obtain c m where M: "tree s M = Some (File c m)" using assms(10) is_file_Some by blast
  note r = install_runs_apply [OF assms(1-8) assms(9) M assms(11-16)]
  have "\<not> (\<exists>f\<in>set fs. l = D @ [f])"
  proof
    assume "\<exists>f\<in>set fs. l = D @ [f]"
    then obtain f where "f \<in> set fs" "l = D @ [f]" by blast
    moreover have "is_file (tree s) (S @ [f])" using assms(16) calculation(1) by blast
    moreover have "tree s (S @ [f]) = Some (Dir d)" using dir r(4) [of l] calculation(1,2) by auto
    ultimately show False by (simp add: is_file_def)
  qed
  moreover have "l \<noteq> D @ [n]" using dir r(4) [of l] calculation by auto
  ultimately have "d = 511 AND NOT (umask s) AND 1023"
    using dir r(4) [of l] none by (auto simp: add_dirs_apply split: if_splits)
  then show "d = 511 AND NOT (umask s) AND 1023 \<and> d \<le> 511 \<and> owner_rwx d"
    using new_dir_mode [OF assms(3)] by simp
qed

theorem install_new_dir_modes_witness:
  "tree (snd (install ex_argv ex_fs)) [''work'', ''out''] = Some (Dir 493) \<and> (493::mode) \<le> 511 \<and> owner_rwx (493::mode)"
proof -
  have w: "tree (snd (install ex_argv ex_fs)) [''work'', ''out''] = Some (Dir 493)"
    using install_runs_apply(4) [where s = ex_fs and argv = ex_argv and script = "''install''" and sd = "''source/''"
        and dd = "''out/''" and ms = "''source/build/app''" and n = "''app''" and fs = "[''mainfile.txt'', ''README'']"
        and D = ex_D and M = ex_M and S = ex_S and c = "[1, 2, 3]" and m = 493 and l = "[''work'', ''out'']"]
    by (simp add: ex_simps ex_D_def ex_S_def ex_M_def add_dirs_apply take_Cons')
  have "\<forall>l d. tree ex_fs l = None \<longrightarrow> tree (snd (install ex_argv ex_fs)) l = Some (Dir d) \<longrightarrow>
           d = 511 AND NOT (umask ex_fs) AND 1023 \<and> d \<le> 511 \<and> owner_rwx d"
    by (rule install_new_dir_modes [where script = "''install''" and sd = "''source/''" and dd = "''out/''"
        and ms = "''source/build/app''" and n = "''app''" and fs = "[''mainfile.txt'', ''README'']"
        and D = ex_D and M = ex_M and S = ex_S])
       (simp_all add: ex_simps ex_D_def ex_S_def ex_M_def)
  then have "tree ex_fs [''work'', ''out''] = None \<longrightarrow> tree (snd (install ex_argv ex_fs)) [''work'', ''out''] = Some (Dir 493) \<longrightarrow>
           (493::mode) = 511 AND NOT (umask ex_fs) AND 1023 \<and> (493::mode) \<le> 511 \<and> owner_rwx (493::mode)"
    by blast
  then show ?thesis using w by (simp add: ex_fs_def)
qed

text \<open>C19: an empty \<open>dest_dir\<close> stops the script at line 5:
  \<open>os.makedirs('', exist_ok=True)\<close> raises \<open>FileNotFoundError('')\<close>, nothing is
  created or copied and the exit status is 1, whatever the rest of the command
  line and the file system.\<close>

theorem install_empty_dest:
  "install (script # sd # '''' # rest) s = (Inl (FileNotFoundError ''''), s) \<and>
   run (script # sd # '''' # rest) s = (1, s)"
  by (simp add: install_def run_def argv_get_def makedirs_empty)

text \<open>C21: an extra written with a trailing separator that names a regular
  file of the source directory.  \<open>os.path.join\<close> keeps the separator, the
  kernel refuses to look up a regular file under a name ending with one, and
  \<open>open(source_dir/f, 'rb')\<close> in \<open>copyfile\<close> raises \<open>NotADirectoryError\<close>:
  the run stops there with exit status 1, after the directories, the main copy
  and the extras before it were installed.\<close>

theorem install_extra_trailing_sep:
  assumes "wf_fs s" "perm_ok s" "umask_ok s"
    and argv: "argv = script # sd # dd # ms # n # pre @ (g @ ''/'') # post"
    and dd: "path_comps dd \<noteq> []" "plain_comps (path_comps dd)"
      "no_file_on (tree s) (start_loc s dd) (path_comps dd)"
    and D: "D = start_loc s dd @ path_comps dd"
    and rm: "resolve s ms = Inr M" "tree s M = Some (File c m)" "M \<noteq> D @ [n]"
    and "simple_name n" "\<not> is_dir (tree s) (D @ [n])"
    and rs: "resolve s sd = Inr S" "is_dir (tree s) S" "S \<noteq> D"
    and pre: "\<forall>h\<in>set pre. simple_name h \<and> is_file (tree s) (S @ [h]) \<and> \<not> is_dir (tree s) (D @ [h])"
    and g: "simple_name g" "is_file (tree s) (S @ [g])"
  shows "install argv s =
      (Inl (NotADirectoryError (pjoin sd (g @ ''/''))),
       s\<lparr>tree := copy_all ((add_dirs (tree s) (start_loc s dd) (path_comps dd) (511 AND NOT (umask s) AND 1023))
                             (D @ [n] \<mapsto> File c m)) S D pre\<rparr>) \<and>
    fst (run argv s) = 1"
proof -
  define s2 where "s2 = s\<lparr>tree := (add_dirs (tree s) (start_loc s dd) (path_comps dd) (511 AND NOT (umask s) AND 1023))
                              (D @ [n] \<mapsto> File c m)\<rparr>"
  define s3 where "s3 = s2\<lparr>tree := copy_all (tree s2) S D pre\<rparr>"
  note at = install_at_extra [OF assms(1-8) rm assms(12,13) s2_def s3_def rs pre]
  then have perm3: "perm_ok s3" and S3: "resolve s3 sd = Inr S" and dS: "is_dir (tree s3) S" by simp_all
  obtain x where x: "tree s (S @ [g]) = Some x" and nx: "\<not> is_dir_node x"
    using g(2) by (auto simp: is_file_def split: option.splits inode.splits)
  then have "tree s3 (S @ [g]) = Some x" using at by simp
  then have "resolve_target s3 (pjoin sd g) = Inr (Existing (S @ [g]))"
    and "\<not> is_dir (tree s3) (S @ [g])"
    using resolve_target_pjoin [OF perm3 S3 dS g(1)] nx by (simp_all add: is_dir_Some)
  then have "resolve s3 (pjoin sd (g @ ''/'')) = Inl ENOTDIR"
    by (simp add: resolve_via_target resolve_target_pjoin_sep [OF g(1)] pjoin_sep_endswith [OF g(1)])
  then have "install_extras argv ((g @ ''/'') # post) s3 = (Inl (NotADirectoryError (pjoin sd (g @ ''/''))), s3)"
    using argv perm3 by (simp add: shutil_copy_src_missing)
  then have "install argv s = (Inl (NotADirectoryError (pjoin sd (g @ ''/''))), s3)"
    using at by simp
  then show ?thesis by (simp add: run_def s3_def s2_def)
qed

theorem install_extra_trailing_sep_witness:
  "install ex_argv_sep ex_fs =
      (Inl (NotADirectoryError (pjoin ''source/'' (''README'' @ ''/''))),
       ex_fs\<lparr>tree := copy_all ((add_dirs (tree ex_fs) (start_loc ex_fs ''out/'') (path_comps ''out/'')
                                   (511 AND NOT (umask ex_fs) AND 1023))
                                 (ex_D @ [''app''] \<mapsto> File [1, 2, 3] 493)) ex_S ex_D [''mainfile.txt'']\<rparr>) \<and>
    fst (run ex_argv_sep ex_fs) = 1"
  by (rule install_extra_trailing_sep [where script = "''install''" and sd = "''source/''" and dd = "''out/''"
      and ms = "''source/build/app''" and n = "''app''" and pre = "[''mainfile.txt'']" and g = "''README''"
      and post = "[]" and M = ex_M])
     (simp_all add: ex_simps ex_D_def ex_S_def ex_M_def ex_argv_sep_def take_Cons')

section \<open>Witnesses of the component properties\<close>

theorem exc_line_newline_witness:
  "newline \<in> set (exc_line (SpecialFileError [CHR ''a'', newline])) \<and>
   newline \<notin> set (exc_line (FileNotFoundError [CHR ''a'', newline]))"
  using Report.exc_line_newline [of "SpecialFileError [CHR ''a'', newline]"]
    Report.exc_line_newline [of "FileNotFoundError [CHR ''a'', newline]"]
  by auto

theorem shutil_copy_fifo_src_witness:
  "shutil_copy ''source/pipe'' ''out.txt'' ex_fifo_fs = (Inl (SpecialFileError ''source/pipe''), ex_fifo_fs)"
  by (rule Shutil.shutil_copy_fifo_src [where M = "[''work'', ''source'', ''pipe'']" and m = 420])
     (simp_all add: ex_fifo_fs_def ex_simps path_isdir_def sys_stat_def samefile_def)

theorem shutil_copy_fifo_dst_witness:
  "shutil_copy ''source/README'' ''source/pipe'' ex_fifo_fs = (Inl (SpecialFileError ''source/pipe''), ex_fifo_fs)"
  by (rule Shutil.shutil_copy_fifo_dst [where M = "[''work'', ''source'', ''README'']" and c = "[5, 6]"
      and m = 420 and L = "[''work'', ''source'', ''pipe'']" and m' = 420])
     (simp_all add: ex_fifo_fs_def ex_simps)

theorem shutil_copy_trailing_dst_witness:
  "shutil_copy ''source/README'' ''source/mainfile.txt/'' ex_fs =
     (Inl (DirectoryDoesNotExist ''source/mainfile.txt/''), ex_fs)"
  by (rule Shutil.shutil_copy_trailing_dst [where M = "[''work'', ''source'', ''README'']"
      and c = "[5, 6]" and m = 420 and tg = "Existing [''work'', ''source'', ''mainfile.txt'']"])
     (simp_all add: ex_simps resolve_target_def lookup_last_def)

theorem psplit_pjoin_witness:
  "psplit (pjoin ''out'' ''app'') = (''out'', ''app'')"
  by (rule Paths.psplit_pjoin) (simp_all add: endswith_sep_def)

theorem makedirs_existing_dir_witness:
  "makedirs ''source'' 511 True ex_fs = (Inr (), ex_fs)"
  by (rule PyOs.makedirs_existing_dir [where l = ex_S]) (simp_all add: ex_simps ex_S_def)

end
